theory Spec2Isabelle
  imports Main "HOL-Library.Word"
begin

section \<open>Constants of the sketch\<close>

text \<open>
  The model follows \<^verbatim>\<open>Internet_Monitor.ino\<close>. Pin numbers, EEPROM offsets and the
  timing constants are the ones declared at the top of the sketch. Times are milliseconds.
\<close>

definition pinD4 :: nat where "pinD4 = 2"
definition pinD6 :: nat where "pinD6 = 12"
definition pinD7 :: nat where "pinD7 = 13"
definition pinD8 :: nat where "pinD8 = 15"

definition EEPROM_SSID :: nat where "EEPROM_SSID = 0"
definition EEPROM_PASSWORD :: nat where "EEPROM_PASSWORD = 32"
definition EEPROM_API_URL :: nat where "EEPROM_API_URL = 96"
definition EEPROM_SIZE :: nat where "EEPROM_SIZE = 256"

definition checkInterval :: nat where "checkInterval = 30000"
definition maxRetries :: nat where "maxRetries = 3"
definition retryDelay :: nat where "retryDelay = 5000"

section \<open>Settings store: the EEPROM and the two string helpers\<close>

text \<open>
  The EEPROM library keeps a RAM buffer of the size given to \<^verbatim>\<open>EEPROM.begin\<close>, filled
  from the flash sector; \<^verbatim>\<open>EEPROM.write\<close> changes the buffer, \<^verbatim>\<open>EEPROM.commit\<close> copies
  the buffer to flash. Reads and writes outside the buffer are ignored by the library (a
  read gives 0). Flash bytes that were never written are erased, that is \<open>0xFF\<close>.
  A byte is a \<^typ>\<open>char\<close>; on the ESP8266 toolchain \<^verbatim>\<open>char\<close> is unsigned, so the test
  \<^verbatim>\<open>c == 255\<close> of \<^verbatim>\<open>loadString\<close> holds exactly for the byte \<open>0xFF\<close>.
\<close>

record nvs =
  ram :: "char list"
  flash :: "char list"

definition EEPROM_begin :: "nat \<Rightarrow> char list \<Rightarrow> nvs" where
  "EEPROM_begin n fl =
     \<lparr>ram = take n (fl @ replicate n (CHR 0xFF)), flash = fl\<rparr>"

definition EEPROM_read :: "nvs \<Rightarrow> nat \<Rightarrow> char" where
  "EEPROM_read e a = (if a < length (ram e) then ram e ! a else CHR 0x00)"

definition EEPROM_write :: "nat \<Rightarrow> char \<Rightarrow> nvs \<Rightarrow> nvs" where
  "EEPROM_write a c e = (if a < length (ram e) then e\<lparr>ram := (ram e)[a := c]\<rparr> else e)"

definition EEPROM_commit :: "nvs \<Rightarrow> nvs" where
  "EEPROM_commit e = e\<lparr>flash := ram e\<rparr>"

text \<open>
  \<^verbatim>\<open>loadString(addr, len)\<close>: the loop over \<open>i\<close> with its \<^verbatim>\<open>break\<close> at the first
  \<open>0x00\<close> or \<open>0xFF\<close> byte.
\<close>

function loadString_loop :: "nvs \<Rightarrow> nat \<Rightarrow> nat \<Rightarrow> nat \<Rightarrow> string \<Rightarrow> string" where
  "loadString_loop e addr len i result =
     (if i < len then
        (let c = EEPROM_read e (addr + i) in
         if c = CHR 0x00 \<or> c = CHR 0xFF then result
         else loadString_loop e addr len (Suc i) (result @ [c]))
      else result)"
  by pat_completeness auto
termination
  by (relation "measure (\<lambda>(e, addr, len, i, result). len - i)") auto

declare loadString_loop.simps [simp del]

definition loadString :: "nvs \<Rightarrow> nat \<Rightarrow> nat \<Rightarrow> string" where
  "loadString e addr len = loadString_loop e addr len 0 []"

text \<open>
  \<^verbatim>\<open>saveString(str, addr, len)\<close>: \<open>len\<close> writes, the string's bytes first and
  \<open>0x00\<close> after its end, then one commit.
\<close>

definition saveString :: "string \<Rightarrow> nat \<Rightarrow> nat \<Rightarrow> nvs \<Rightarrow> nvs" where
  "saveString str addr len e =
     EEPROM_commit
       (fold (\<lambda>i. EEPROM_write (addr + i) (if i < length str then str ! i else CHR 0x00))
          [0..<len] e)"

text \<open>The three configuration strings, as the sketch's globals \<^verbatim>\<open>ssid, password, apiURL\<close>.\<close>

record DeviceConfig =
  networkName :: string
  networkSecret :: string
  apiEndpoint :: string

text \<open>The three \<^verbatim>\<open>loadString\<close> calls at the start of \<^verbatim>\<open>setup\<close>.\<close>

definition load :: "nvs \<Rightarrow> DeviceConfig" where
  "load e =
     \<lparr>networkName = loadString e EEPROM_SSID 32,
      networkSecret = loadString e EEPROM_PASSWORD 64,
      apiEndpoint = loadString e EEPROM_API_URL 128\<rparr>"

text \<open>The three \<^verbatim>\<open>saveString\<close> calls of the \<^verbatim>\<open>/save\<close> handlers and of \<^verbatim>\<open>setup\<close>.\<close>

definition save :: "DeviceConfig \<Rightarrow> nvs \<Rightarrow> nvs" where
  "save cfg e =
     saveString (apiEndpoint cfg) EEPROM_API_URL 128
       (saveString (networkSecret cfg) EEPROM_PASSWORD 64
          (saveString (networkName cfg) EEPROM_SSID 32 e))"

text \<open>\<^verbatim>\<open>handleResetSettings\<close>: the factory reset writes its own three literals.\<close>

definition handleResetSettings :: "nvs \<Rightarrow> nvs" where
  "handleResetSettings e =
     saveString ''http://login.npu.ac.th/login?123456'' EEPROM_API_URL 128
       (saveString ''mypassword'' EEPROM_PASSWORD 64
          (saveString ''myssid'' EEPROM_SSID 32 e))"

definition reset_defaults :: DeviceConfig where
  "reset_defaults =
     \<lparr>networkName = ''myssid'', networkSecret = ''mypassword'',
      apiEndpoint = ''http://login.npu.ac.th/login?123456''\<rparr>"

text \<open>The literals \<^verbatim>\<open>setup\<close> assigns when the loaded network name is empty.\<close>

definition first_boot_defaults :: DeviceConfig where
  "first_boot_defaults =
     \<lparr>networkName = ''redmi4xx'', networkSecret = ''komkritc'',
      apiEndpoint = ''http://login.npu.ac.th/login?dst=http://www.msftconnecttest.com/redirect&popup=true&username=3449900299486&password=komkritc1975''\<rparr>"

text \<open>A restart followed by the loads of \<^verbatim>\<open>setup\<close>: what the next boot reads back.\<close>

definition reload :: "nvs \<Rightarrow> DeviceConfig" where
  "reload e = load (EEPROM_begin EEPROM_SIZE (flash e))"

definition sentinel_free :: "string \<Rightarrow> bool" where
  "sentinel_free str = (\<forall>c \<in> set str. c \<noteq> CHR 0x00 \<and> c \<noteq> CHR 0xFF)"

definition truncated :: "DeviceConfig \<Rightarrow> DeviceConfig" where
  "truncated cfg =
     \<lparr>networkName = take 32 (networkName cfg),
      networkSecret = take 64 (networkSecret cfg),
      apiEndpoint = take 128 (apiEndpoint cfg)\<rparr>"

text \<open>What a field holds after a save and a load: cut at the slot width, then at the first sentinel.\<close>

definition is_sentinel :: "char \<Rightarrow> bool" where
  "is_sentinel c = (c = CHR 0x00 \<or> c = CHR 0xFF)"

definition slot_byte :: "string \<Rightarrow> nat \<Rightarrow> char" where
  "slot_byte str i = (if i < length str then str ! i else CHR 0x00)"

definition stored :: "nat \<Rightarrow> string \<Rightarrow> string" where
  "stored len str = takeWhile (\<lambda>c. \<not> is_sentinel c) (take len str)"

text \<open>The configuration as the three loads return it after a save.\<close>

definition read_back :: "DeviceConfig \<Rightarrow> DeviceConfig" where
  "read_back cfg =
     \<lparr>networkName = stored 32 (networkName cfg),
      networkSecret = stored 64 (networkSecret cfg),
      apiEndpoint = stored 128 (apiEndpoint cfg)\<rparr>"

section \<open>Device state, effects and the outside world\<close>

text \<open>
  \<^verbatim>\<open>struct UptimeData\<close>, three \<^verbatim>\<open>uint32_t\<close> counters: addition wraps at \<open>2^32\<close>.
\<close>

record UptimeData =
  bootCount :: "32 word"
  internetUp :: "32 word"
  apiSuccess :: "32 word"

text \<open>
  What the sketch does to the outside is kept as a log of events, in program order.
  Serial output, mDNS, OTA and the registration of the web routes are not modelled.
\<close>

datatype event =
    PinWrite nat bool
  | Delay nat
  | PingHost string
  | HttpGet string
  | HttpSend nat string
  | WifiDisconnect
  | WifiBegin string string

text \<open>
  The globals of the sketch (\<^verbatim>\<open>ssid, password, apiURL\<close> grouped as \<open>config\<close>,
  \<^verbatim>\<open>internetOK\<close>, \<^verbatim>\<open>rtcData\<close>, the static \<^verbatim>\<open>rssiFailCount\<close> of \<^verbatim>\<open>checkWiFiHealth\<close>), the
  EEPROM, the RTC user memory (\<open>None\<close> when \<^verbatim>\<open>ESP.rtcUserMemoryRead\<close> fails), the output
  pins and the event log.
\<close>

record device =
  config :: DeviceConfig
  internetOK :: bool
  rtcData :: UptimeData
  rssiFailCount :: int
  eeprom :: nvs
  rtc_mem :: "UptimeData option"
  pins :: "nat \<Rightarrow> bool"
  log :: "event list"

text \<open>
  The network as one health check sees it: the result of \<^verbatim>\<open>pingHost(host)\<close> in the
  attempt numbered \<open>n\<close> (the value of \<^verbatim>\<open>pingAttempts\<close> after its increment), and what the
  HTTP client meets in API attempt \<open>n\<close>.
\<close>

datatype http_outcome = WifiDown | BeginFailed | HttpCode int

record world =
  ping :: "nat \<Rightarrow> string \<Rightarrow> bool"
  http :: "nat \<Rightarrow> http_outcome"

text \<open>\<^verbatim>\<open>ESP.restart()\<close> does not return: a function that reaches it ends there.\<close>

datatype 'a outcome = Restarted 'a | Running 'a

definition emit :: "event \<Rightarrow> device \<Rightarrow> device" where
  "emit ev s = s\<lparr>log := log s @ [ev]\<rparr>"

definition digitalWrite :: "nat \<Rightarrow> bool \<Rightarrow> device \<Rightarrow> device" where
  "digitalWrite pin level s = emit (PinWrite pin level) (s\<lparr>pins := (pins s)(pin := level)\<rparr>)"

definition delay :: "nat \<Rightarrow> device \<Rightarrow> device" where
  "delay ms s = emit (Delay ms) s"

definition rtcUserMemoryWrite :: "device \<Rightarrow> device" where
  "rtcUserMemoryWrite s = s\<lparr>rtc_mem := Some (rtcData s)\<rparr>"

section \<open>Indicator driver\<close>

definition blinkD4 :: "device \<Rightarrow> device" where
  "blinkD4 s =
     (let s = digitalWrite pinD4 True s;
          s = delay 100 s
      in digitalWrite pinD4 False s)"

function blinkPattern_loop :: "int \<Rightarrow> nat \<Rightarrow> nat \<Rightarrow> int \<Rightarrow> device \<Rightarrow> device" where
  "blinkPattern_loop count on_ms off_ms i s =
     (if i < count then
        (let s = digitalWrite pinD4 True s;
             s = delay on_ms s;
             s = digitalWrite pinD4 False s;
             s = (if i < count - 1 then delay off_ms s else s)
         in blinkPattern_loop count on_ms off_ms (i + 1) s)
      else s)"
  by pat_completeness auto
termination
  by (relation "measure (\<lambda>(count, on_ms, off_ms, i, s). nat (count - i))") auto

declare blinkPattern_loop.simps [simp del]

definition blinkPattern :: "int \<Rightarrow> nat \<Rightarrow> nat \<Rightarrow> device \<Rightarrow> device" where
  "blinkPattern count on_ms off_ms s = blinkPattern_loop count on_ms off_ms 0 s"

section \<open>Connectivity prober\<close>

text \<open>
  \<^verbatim>\<open>pingHost\<close>: name resolution, the connection and the wait of at most 3000 ms for the
  first byte are the network's answer, \<open>ping w n host\<close>.
\<close>

definition pingHost :: "world \<Rightarrow> nat \<Rightarrow> string \<Rightarrow> device \<Rightarrow> bool \<times> device" where
  "pingHost w n host s = (ping w n host, emit (PingHost host) s)"

text \<open>\<^verbatim>\<open>httpGETRequest\<close>: false without WiFi or when \<^verbatim>\<open>http.begin\<close> fails, else \<^verbatim>\<open>code > 0\<close>.\<close>

definition http_success :: "http_outcome \<Rightarrow> bool" where
  "http_success r = (case r of WifiDown \<Rightarrow> False | BeginFailed \<Rightarrow> False | HttpCode code \<Rightarrow> code > 0)"

definition httpGETRequest :: "world \<Rightarrow> nat \<Rightarrow> string \<Rightarrow> device \<Rightarrow> bool \<times> device" where
  "httpGETRequest w n url s = (http_success (http w n), emit (HttpGet url) s)"

text \<open>The condition \<^verbatim>\<open>pingHost("www.google.com") || pingHost("www.yahoo.com")\<close>.\<close>

definition probeInternet :: "world \<Rightarrow> nat \<Rightarrow> device \<Rightarrow> bool \<times> device" where
  "probeInternet w n s =
     (let (r, s) = pingHost w n ''www.google.com'' s
      in if r then (True, s) else pingHost w n ''www.yahoo.com'' s)"

section \<open>Health monitor\<close>

text \<open>The inner loop of \<^verbatim>\<open>performInternetCheck\<close>, over \<^verbatim>\<open>apiAttempts\<close> and \<^verbatim>\<open>apiOK\<close>.\<close>

function api_loop :: "world \<Rightarrow> nat \<Rightarrow> bool \<Rightarrow> device \<Rightarrow> nat \<times> bool \<times> device" where
  "api_loop w apiAttempts apiOK s =
     (if apiAttempts < maxRetries \<and> \<not> apiOK then
        (let apiAttempts = apiAttempts + 1;
             (r, s) = httpGETRequest w apiAttempts (apiEndpoint (config s)) s
         in if r then api_loop w apiAttempts True s
            else api_loop w apiAttempts apiOK
                   (if apiAttempts < maxRetries then delay retryDelay s else s))
      else (apiAttempts, apiOK, s))"
  by pat_completeness auto
termination
  by (relation "measure (\<lambda>(w, apiAttempts, apiOK, s). maxRetries - apiAttempts)") auto

declare api_loop.simps [simp del]

text \<open>
  The outer loop, over \<^verbatim>\<open>pingAttempts\<close> and the global \<^verbatim>\<open>internetOK\<close>. The declaration
  \<^verbatim>\<open>bool internetOK = false;\<close> inside \<^verbatim>\<open>performInternetCheck\<close> is commented out in the
  sketch, so the loop tests the global as the previous cycle left it.
\<close>

function ping_loop ::
  "world \<Rightarrow> nat \<Rightarrow> nat \<Rightarrow> bool \<Rightarrow> device \<Rightarrow> nat \<times> nat \<times> bool \<times> device" where
  "ping_loop w pingAttempts apiAttempts apiOK s =
     (if pingAttempts < maxRetries \<and> \<not> internetOK s then
        (let pingAttempts = pingAttempts + 1;
             (r, s) = probeInternet w pingAttempts s
         in if r then
              (let s = s\<lparr>internetOK := True\<rparr>;
                   (apiAttempts, apiOK, s) = api_loop w apiAttempts apiOK s
               in ping_loop w pingAttempts apiAttempts apiOK s)
            else ping_loop w pingAttempts apiAttempts apiOK
                   (if pingAttempts < maxRetries then delay retryDelay s else s))
      else (pingAttempts, apiAttempts, apiOK, s))"
  by pat_completeness auto
termination
  by (relation "measure (\<lambda>(w, pingAttempts, apiAttempts, apiOK, s). maxRetries - pingAttempts)")
    auto

declare ping_loop.simps [simp del]

text \<open>
  \<^verbatim>\<open>performInternetCheck\<close>. The local \<^verbatim>\<open>apiOK\<close> is returned with the state, as the final
  status line of the sketch reports it.
\<close>

definition performInternetCheck :: "world \<Rightarrow> device \<Rightarrow> bool \<times> device" where
  "performInternetCheck w s =
     (let s = blinkD4 s;
          (pingAttempts, apiAttempts, apiOK, s) = ping_loop w 0 0 False s;
          s = digitalWrite pinD8 (internetOK s) s;
          s = digitalWrite pinD7 (\<not> internetOK s) s;
          s = (if internetOK s \<and> apiOK then
                 (let s = blinkPattern 2 100 100 s
                  in s\<lparr>rtcData := (rtcData s)\<lparr>apiSuccess := apiSuccess (rtcData s) + 1\<rparr>\<rparr>)
               else if \<not> internetOK s then blinkPattern 3 100 100 s
               else blinkPattern 1 500 0 s);
          s = (if internetOK s
               then s\<lparr>rtcData := (rtcData s)\<lparr>internetUp := internetUp (rtcData s) + 1\<rparr>\<rparr>
               else s);
          s = rtcUserMemoryWrite s
      in (apiOK, s))"

section \<open>Link supervisor\<close>

text \<open>
  \<^verbatim>\<open>checkWiFiHealth\<close>, with \<^verbatim>\<open>WiFi.status() == WL_CONNECTED\<close> and \<^verbatim>\<open>WiFi.RSSI()\<close> as
  the inputs of the tick.
\<close>

definition checkWiFiHealth :: "bool \<Rightarrow> int \<Rightarrow> device \<Rightarrow> device outcome" where
  "checkWiFiHealth connected rssi s =
     (if \<not> connected then Restarted s
      else
        (let s = (if rssi < - 90 then s\<lparr>rssiFailCount := rssiFailCount s + 1\<rparr>
                  else s\<lparr>rssiFailCount := 0\<rparr>)
         in if rssiFailCount s \<ge> 6 then
              (let s = emit WifiDisconnect s;
                   s = delay 500 s;
                   s = emit (WifiBegin (networkName (config s)) (networkSecret (config s))) s
               in Running (s\<lparr>rssiFailCount := 0\<rparr>))
            else Running s))"

text \<open>A run of supervisor ticks; a restart ends it.\<close>

fun supervise :: "(bool \<times> int) list \<Rightarrow> device \<Rightarrow> device outcome" where
  "supervise [] s = Running s"
| "supervise ((connected, rssi) # ticks) s =
     (case checkWiFiHealth connected rssi s of
        Restarted s' \<Rightarrow> Restarted s'
      | Running s' \<Rightarrow> supervise ticks s')"

definition reconnects :: "device \<Rightarrow> nat" where
  "reconnects s = length (filter (\<lambda>ev. ev = WifiDisconnect) (log s))"

section \<open>Web handlers\<close>

text \<open>
  \<^verbatim>\<open>server.hasArg\<close> and \<^verbatim>\<open>server.arg\<close> over the fields of the request; a missing field
  reads as the empty string.
\<close>

definition hasArg :: "(string \<rightharpoonup> string) \<Rightarrow> string \<Rightarrow> bool" where
  "hasArg args name = (args name \<noteq> None)"

definition arg :: "(string \<rightharpoonup> string) \<Rightarrow> string \<Rightarrow> string" where
  "arg args name = (case args name of None \<Rightarrow> [] | Some v \<Rightarrow> v)"

text \<open>The \<^verbatim>\<open>POST /save\<close> handler registered in \<^verbatim>\<open>configMode\<close>.\<close>

definition configMode_save :: "(string \<rightharpoonup> string) \<Rightarrow> device \<Rightarrow> device outcome" where
  "configMode_save args s =
     (if hasArg args ''ssid'' then
        (let s = s\<lparr>config := \<lparr>networkName = arg args ''ssid'',
                               networkSecret = arg args ''password'',
                               apiEndpoint = arg args ''api_url''\<rparr>\<rparr>;
             s = s\<lparr>eeprom := save (config s) (eeprom s)\<rparr>;
             s = emit (HttpSend 200 ''text/html'') s;
             s = delay 1000 s
         in Restarted s)
      else Running (emit (HttpSend 400 ''text/plain'') s))"

text \<open>The \<^verbatim>\<open>POST /save\<close> handler registered in \<^verbatim>\<open>normalSetup\<close>: the same text again.\<close>

definition normalSetup_save :: "(string \<rightharpoonup> string) \<Rightarrow> device \<Rightarrow> device outcome" where
  "normalSetup_save args s =
     (if hasArg args ''ssid'' then
        (let s = s\<lparr>config := \<lparr>networkName = arg args ''ssid'',
                               networkSecret = arg args ''password'',
                               apiEndpoint = arg args ''api_url''\<rparr>\<rparr>;
             s = s\<lparr>eeprom := save (config s) (eeprom s)\<rparr>;
             s = emit (HttpSend 200 ''text/html'') s;
             s = delay 1000 s
         in Restarted s)
      else Running (emit (HttpSend 400 ''text/plain'') s))"

text \<open>The \<^verbatim>\<open>/reset\<close> handler, registered with the same text in both modes.\<close>

definition handleReset :: "device \<Rightarrow> device outcome" where
  "handleReset s =
     (let s = emit (HttpSend 200 ''text/html'') s;
          s = s\<lparr>eeprom := handleResetSettings (eeprom s)\<rparr>;
          s = delay 1000 s
      in Restarted s)"

section \<open>Mode controller\<close>

definition rtcUserMemoryRead :: "device \<Rightarrow> bool \<times> device" where
  "rtcUserMemoryRead s =
     (case rtc_mem s of None \<Rightarrow> (False, s) | Some d \<Rightarrow> (True, s\<lparr>rtcData := d\<rparr>))"

text \<open>
  \<^verbatim>\<open>normalSetup\<close>: the RTC block is read, zeroed when the read fails, the boot is counted
  and the block written back; the three outputs are driven low. The services started
  after that do not change the state modelled here.
\<close>

definition normalSetup :: "device \<Rightarrow> device" where
  "normalSetup s =
     (let (readable, s) = rtcUserMemoryRead s;
          s = (if \<not> readable
               then s\<lparr>rtcData := \<lparr>bootCount = 0, internetUp = 0, apiSuccess = 0\<rparr>\<rparr>
               else s);
          s = s\<lparr>rtcData := (rtcData s)\<lparr>bootCount := bootCount (rtcData s) + 1\<rparr>\<rparr>;
          s = rtcUserMemoryWrite s;
          s = digitalWrite pinD4 False s;
          s = digitalWrite pinD7 False s
      in digitalWrite pinD8 False s)"

text \<open>
  What \<^verbatim>\<open>setup\<close> meets at boot: the two reads of the reset input (true for LOW), the
  result of \<^verbatim>\<open>connectToSavedWiFi\<close>, the results of starting the access point and the DNS
  responder, and the network during the first health check.
\<close>

record boot_env =
  button_low_first :: bool
  button_low_second :: bool
  wifi_connects :: bool
  softAPConfig_ok :: bool
  softAP_ok :: bool
  dns_ok :: bool
  first_check :: world

text \<open>
  \<^verbatim>\<open>configMode\<close> up to its endless service loop: each failed start blinks, waits and
  restarts; otherwise the portal runs. It never touches \<^verbatim>\<open>rtcData\<close>.
\<close>

definition configMode :: "boot_env \<Rightarrow> device \<Rightarrow> device outcome" where
  "configMode env s =
     (let s = emit WifiDisconnect s;
          s = delay 1000 s
      in if \<not> softAPConfig_ok env then
           Restarted (delay 1000 (blinkPattern 5 200 200 s))
         else if \<not> softAP_ok env then
           Restarted (delay 1000 (blinkPattern 3 500 500 s))
         else if \<not> dns_ok env then
           Restarted (delay 1000 (blinkPattern 3 500 500 s))
         else Running (delay 100 s))"

text \<open>
  \<^verbatim>\<open>connectToSavedWiFi\<close>: the wait for the link, in steps of 500 ms up to the timeout, is
  summed up by its result.
\<close>

definition connectToSavedWiFi :: "boot_env \<Rightarrow> device \<Rightarrow> bool \<times> device" where
  "connectToSavedWiFi env s =
     (wifi_connects env,
      emit (WifiBegin (networkName (config s)) (networkSecret (config s))) s)"

text \<open>The memory of the device when \<^verbatim>\<open>setup\<close> starts: globals zeroed, flash and RTC as left.\<close>

definition power_on :: "char list \<Rightarrow> UptimeData option \<Rightarrow> device" where
  "power_on fl rtc =
     \<lparr>config = \<lparr>networkName = [], networkSecret = [], apiEndpoint = []\<rparr>,
      internetOK = False,
      rtcData = \<lparr>bootCount = 0, internetUp = 0, apiSuccess = 0\<rparr>,
      rssiFailCount = 0,
      eeprom = \<lparr>ram = [], flash = fl\<rparr>,
      rtc_mem = rtc,
      pins = (\<lambda>pin. False),
      log = []\<rparr>"

datatype boot_result = BootRestart device | Station device | ConfigurationPortal device

text \<open>
  The sketch's \<^verbatim>\<open>setup()\<close>, started on the memory of \<open>power_on\<close>. Its first part
  (\<^verbatim>\<open>EEPROM.begin\<close>, the three loads, the defaults when the network name is empty) is
  \<open>load_settings\<close>.
\<close>

definition load_settings :: "device \<Rightarrow> device" where
  "load_settings s =
     (let s = s\<lparr>eeprom := EEPROM_begin EEPROM_SIZE (flash (eeprom s))\<rparr>;
          s = s\<lparr>config := load (eeprom s)\<rparr>
      in if length (networkName (config s)) = 0 then
           (let s = s\<lparr>config := first_boot_defaults\<rparr>
            in s\<lparr>eeprom := save (config s) (eeprom s)\<rparr>)
         else s)"

definition setup_sketch :: "boot_env \<Rightarrow> device \<Rightarrow> boot_result" where
  "setup_sketch env s =
     (let s = load_settings s;
          s = (if button_low_first env then delay 500 s else s)
      in if button_low_first env \<and> button_low_second env then
           BootRestart (s\<lparr>eeprom := handleResetSettings (eeprom s)\<rparr>)
         else
           (let (connected, s) = connectToSavedWiFi env s
            in if connected then
                 Station (snd (performInternetCheck (first_check env) (normalSetup s)))
               else
                 (case configMode env s of
                    Restarted s' \<Rightarrow> BootRestart s'
                  | Running s' \<Rightarrow> ConfigurationPortal s')))"

fun boot_state :: "boot_result \<Rightarrow> device" where
  "boot_state (BootRestart s) = s"
| "boot_state (Station s) = s"
| "boot_state (ConfigurationPortal s) = s"

section \<open>Vocabulary of the properties\<close>

text \<open>
  The events one health check adds to the log, and the number of internet attempts among
  them: every attempt starts with \<^verbatim>\<open>pingHost("www.google.com")\<close>.
\<close>

definition cycle_events :: "world \<Rightarrow> device \<Rightarrow> event list" where
  "cycle_events w s = drop (length (log s)) (log (snd (performInternetCheck w s)))"

definition internet_attempts :: "event list \<Rightarrow> nat" where
  "internet_attempts evs = length (filter (\<lambda>ev. ev = PingHost ''www.google.com'') evs)"

text \<open>
  Whether the network answers in a cycle: some internet attempt of the cycle's three
  would succeed, some API attempt would succeed.
\<close>

definition attempt_succeeds :: "world \<Rightarrow> nat \<Rightarrow> bool" where
  "attempt_succeeds w n = (ping w n ''www.google.com'' \<or> ping w n ''www.yahoo.com'')"

definition internet_reachable :: "world \<Rightarrow> bool" where
  "internet_reachable w = list_ex (attempt_succeeds w) [1..<Suc maxRetries]"

definition api_reachable :: "world \<Rightarrow> bool" where
  "api_reachable w = list_ex (\<lambda>n. http_success (http w n)) [1..<Suc maxRetries]"

text \<open>The blink patterns as event sequences on the status pin.\<close>

definition short_blinks :: "nat \<Rightarrow> event list" where
  "short_blinks n =
     concat (map (\<lambda>i. [PinWrite pinD4 True, Delay 100, PinWrite pinD4 False] @
                       (if Suc i < n then [Delay 100] else [])) [0..<n])"

definition long_blink :: "event list" where
  "long_blink = [PinWrite pinD4 True, Delay 500, PinWrite pinD4 False]"

text \<open>Two networks: one where everything answers, one where nothing does.\<close>

definition online :: world where
  "online = \<lparr>ping = (\<lambda>n host. True), http = (\<lambda>n. HttpCode 200)\<rparr>"

definition offline :: world where
  "offline = \<lparr>ping = (\<lambda>n host. False), http = (\<lambda>n. HttpCode (- 1))\<rparr>"

text \<open>A secret with an erased-flash byte in the middle, as a form field \<^verbatim>\<open>p%FFw\<close> decodes.\<close>

definition secret_with_erased_byte :: DeviceConfig where
  "secret_with_erased_byte =
     \<lparr>networkName = ''net'', networkSecret = [CHR ''p'', CHR 0xFF, CHR ''w''],
      apiEndpoint = ''http://a''\<rparr>"

section \<open>Vocabulary of the proofs\<close>

text \<open>The events one internet attempt logs, a failed one with the wait that follows it.\<close>

definition probe_events :: "world \<Rightarrow> nat \<Rightarrow> event list" where
  "probe_events w n =
     (if ping w n ''www.google.com'' then [PingHost ''www.google.com'']
      else [PingHost ''www.google.com'', PingHost ''www.yahoo.com''])"

definition failed_attempt_events :: "world \<Rightarrow> nat \<Rightarrow> event list" where
  "failed_attempt_events w n =
     probe_events w n @ (if n < maxRetries then [Delay retryDelay] else [])"

definition after_failed_attempt :: "world \<Rightarrow> nat \<Rightarrow> device \<Rightarrow> device" where
  "after_failed_attempt w n s =
     (if n < maxRetries then delay retryDelay (s\<lparr>log := log s @ probe_events w n\<rparr>)
      else s\<lparr>log := log s @ probe_events w n\<rparr>)"

definition api_event :: "event \<Rightarrow> bool" where
  "api_event ev = (case ev of HttpGet u \<Rightarrow> True | Delay ms \<Rightarrow> True | _ \<Rightarrow> False)"

definition probe_event :: "event \<Rightarrow> bool" where
  "probe_event ev =
     (case ev of PingHost h \<Rightarrow> True | HttpGet u \<Rightarrow> True | Delay ms \<Rightarrow> True | _ \<Rightarrow> False)"

text \<open>
  The events of the internet sub-loop from the attempt after \<open>p\<close> to attempt \<open>p'\<close>,
  when the attempts between them fail.
\<close>

definition attempt_log :: "world \<Rightarrow> nat \<Rightarrow> nat \<Rightarrow> event list" where
  "attempt_log w p p' =
     concat (map (failed_attempt_events w) [Suc p..<p']) @
     (if attempt_succeeds w p' then probe_events w p' else failed_attempt_events w p')"

text \<open>Whether an attempt after the one numbered \<open>p\<close> succeeds.\<close>

definition internet_reachable_after :: "world \<Rightarrow> nat \<Rightarrow> bool" where
  "internet_reachable_after w p = list_ex (attempt_succeeds w) [Suc p..<Suc maxRetries]"

definition api_reachable_after :: "world \<Rightarrow> nat \<Rightarrow> bool" where
  "api_reachable_after w a = list_ex (\<lambda>n. http_success (http w n)) [Suc a..<Suc maxRetries]"

text \<open>
  The two flags as one health check leaves them: \<^verbatim>\<open>internetOK\<close> stays set when it was
  set on entry, and \<^verbatim>\<open>apiOK\<close> can only be set by an API attempt of this cycle.
\<close>

definition cycle_internet :: "world \<Rightarrow> device \<Rightarrow> bool" where
  "cycle_internet w s = (internetOK s \<or> internet_reachable w)"

definition cycle_api :: "world \<Rightarrow> device \<Rightarrow> bool" where
  "cycle_api w s = (\<not> internetOK s \<and> internet_reachable w \<and> api_reachable w)"

definition feedback :: "bool \<Rightarrow> bool \<Rightarrow> event list" where
  "feedback inet api =
     (if inet \<and> api then short_blinks 2 else if \<not> inet then short_blinks 3 else long_blink)"

definition counted :: "bool \<Rightarrow> bool \<Rightarrow> UptimeData \<Rightarrow> UptimeData" where
  "counted inet api d =
     \<lparr>bootCount = bootCount d,
      internetUp = internetUp d + (if inet then 1 else 0),
      apiSuccess = apiSuccess d + (if inet \<and> api then 1 else 0)\<rparr>"

text \<open>The blink feedback of a cycle: what follows the write to the internet-down pin.\<close>

definition blink_feedback :: "event list \<Rightarrow> event list" where
  "blink_feedback evs =
     tl (dropWhile (\<lambda>ev. case ev of PinWrite pin level \<Rightarrow> pin \<noteq> pinD7 | _ \<Rightarrow> True) evs)"

text \<open>A tick of the link supervisor with the link up and the signal below the threshold.\<close>

definition weak_tick :: "bool \<times> int \<Rightarrow> bool" where
  "weak_tick t = (fst t \<and> snd t < - 90)"

definition reconnect_events :: "device \<Rightarrow> event list" where
  "reconnect_events s =
     [WifiDisconnect, Delay 500, WifiBegin (networkName (config s)) (networkSecret (config s))]"

fun the_running :: "device outcome \<Rightarrow> device" where
  "the_running (Running s) = s"
| "the_running (Restarted s) = s"

text \<open>The counters a boot starts from: the RTC block, or zeros when it cannot be read.\<close>

definition stored_count :: "UptimeData option \<Rightarrow> UptimeData" where
  "stored_count rtc =
     (case rtc of None \<Rightarrow> \<lparr>bootCount = 0, internetUp = 0, apiSuccess = 0\<rparr> | Some d \<Rightarrow> d)"

definition station_boot :: "boot_env \<Rightarrow> bool" where
  "station_boot env =
     (wifi_connects env \<and> \<not> (button_low_first env \<and> button_low_second env))"

fun ends_in_station :: "boot_result \<Rightarrow> bool" where
  "ends_in_station (Station s) = True"
| "ends_in_station (BootRestart s) = False"
| "ends_in_station (ConfigurationPortal s) = False"

fun ends_in_portal :: "boot_result \<Rightarrow> bool" where
  "ends_in_portal (ConfigurationPortal s) = True"
| "ends_in_portal (BootRestart s) = False"
| "ends_in_portal (Station s) = False"

text \<open>
  Two boots on erased storage: one that joins the network and finds everything
  answering, one that finds no network and opens the portal. \<open>booted\<close> is the device
  as \<^verbatim>\<open>loop()\<close> first sees it after the former.
\<close>

definition good_boot :: boot_env where
  "good_boot =
     \<lparr>button_low_first = False, button_low_second = False, wifi_connects = True,
      softAPConfig_ok = True, softAP_ok = True, dns_ok = True, first_check = online\<rparr>"

definition quiet_boot :: boot_env where
  "quiet_boot =
     \<lparr>button_low_first = False, button_low_second = False, wifi_connects = False,
      softAPConfig_ok = True, softAP_ok = True, dns_ok = True, first_check = offline\<rparr>"

definition booted :: device where
  "booted = boot_state (setup_sketch good_boot (power_on [] None))"

definition seven_boots :: UptimeData where
  "seven_boots = \<lparr>bootCount = 7, internetUp = 3, apiSuccess = 2\<rparr>"

section \<open>Settings store: the slots\<close>

lemma loadString_loop_eq:
  "loadString_loop e addr len i result =
     result @ takeWhile (\<lambda>c. \<not> is_sentinel c) (map (\<lambda>j. EEPROM_read e (addr + j)) [i..<len])"
proof (induction e addr len i result rule: loadString_loop.induct)
  case (1 e addr len i result)
  show ?case
  proof (cases "i < len")
    case False
    then show ?thesis by (subst loadString_loop.simps) simp
  next
    case True
    then have upt: "[i..<len] = i # [Suc i..<len]" by (simp add: upt_conv_Cons)
    show ?thesis
    proof (cases "is_sentinel (EEPROM_read e (addr + i))")
      case True
      with \<open>i < len\<close> upt show ?thesis
        by (subst loadString_loop.simps) (simp add: is_sentinel_def Let_def)
    next
      case False
      with \<open>i < len\<close> have "loadString_loop e addr len i result =
          loadString_loop e addr len (Suc i) (result @ [EEPROM_read e (addr + i)])"
        by (subst loadString_loop.simps) (simp add: is_sentinel_def Let_def)
      also have "\<dots> = (result @ [EEPROM_read e (addr + i)]) @
          takeWhile (\<lambda>c. \<not> is_sentinel c) (map (\<lambda>j. EEPROM_read e (addr + j)) [Suc i..<len])"
        using "1.IH" [OF \<open>i < len\<close> refl] False by (simp add: is_sentinel_def)
      finally show ?thesis using False upt by simp
    qed
  qed
qed

lemma fold_write_length:
  "length (ram (fold (\<lambda>i. EEPROM_write (addr + i) (f i)) is e)) = length (ram e)"
  by (induction "is" arbitrary: e) (simp_all add: EEPROM_write_def)

lemma fold_write_flash:
  "flash (fold (\<lambda>i. EEPROM_write (addr + i) (f i)) is e) = flash e"
  by (induction "is" arbitrary: e) (simp_all add: EEPROM_write_def)

lemma fold_write_nth:
  "addr + len \<le> length (ram e) \<Longrightarrow> j < length (ram e) \<Longrightarrow>
   ram (fold (\<lambda>i. EEPROM_write (addr + i) (f i)) [0..<len] e) ! j =
     (if addr \<le> j \<and> j < addr + len then f (j - addr) else ram e ! j)"
proof (induction len)
  case 0
  then show ?case by auto
next
  case (Suc len)
  let ?e = "fold (\<lambda>i. EEPROM_write (addr + i) (f i)) [0..<len] e"
  have len: "length (ram ?e) = length (ram e)" by (rule fold_write_length)
  have ih: "ram ?e ! j = (if addr \<le> j \<and> j < addr + len then f (j - addr) else ram e ! j)"
    using Suc by simp
  have "ram (fold (\<lambda>i. EEPROM_write (addr + i) (f i)) [0..<Suc len] e) ! j =
        ram (EEPROM_write (addr + len) (f len) ?e) ! j"
    by simp
  also have "\<dots> = (if j = addr + len then f len else ram ?e ! j)"
    using Suc.prems len by (simp add: EEPROM_write_def nth_list_update)
  finally show ?case using ih by auto
qed

lemma saveString_ram_length: "length (ram (saveString str addr len e)) = length (ram e)"
  by (simp add: saveString_def EEPROM_commit_def fold_write_length)

lemma saveString_flash: "flash (saveString str addr len e) = ram (saveString str addr len e)"
  by (simp add: saveString_def EEPROM_commit_def)

lemma saveString_read:
  assumes "addr + len \<le> length (ram e)"
  shows "EEPROM_read (saveString str addr len e) j =
     (if addr \<le> j \<and> j < addr + len then slot_byte str (j - addr) else EEPROM_read e j)"
proof (cases "j < length (ram e)")
  case True
  have "ram (saveString str addr len e) ! j =
      (if addr \<le> j \<and> j < addr + len then slot_byte str (j - addr) else ram e ! j)"
    using fold_write_nth [OF assms True, of "slot_byte str"]
    by (simp add: saveString_def EEPROM_commit_def slot_byte_def)
  with True show ?thesis
    by (simp add: EEPROM_read_def saveString_ram_length)
next
  case False
  with assms show ?thesis
    by (simp add: EEPROM_read_def saveString_ram_length)
qed

lemma slot_bytes: "map (slot_byte str) [0..<len] = take len str @ replicate (len - length str) (CHR 0x00)"
  by (rule nth_equalityI) (auto simp: slot_byte_def nth_append)

lemma loadString_eq:
  "loadString e addr len =
     takeWhile (\<lambda>c. \<not> is_sentinel c) (map (\<lambda>j. EEPROM_read e (addr + j)) [0..<len])"
  by (simp add: loadString_def loadString_loop_eq)

lemma loadString_cong:
  "(\<And>j. j < len \<Longrightarrow> EEPROM_read e' (addr + j) = EEPROM_read e (addr + j)) \<Longrightarrow>
   loadString e' addr len = loadString e addr len"
proof -
  assume "\<And>j. j < len \<Longrightarrow> EEPROM_read e' (addr + j) = EEPROM_read e (addr + j)"
  then have "map (\<lambda>j. EEPROM_read e' (addr + j)) [0..<len] =
             map (\<lambda>j. EEPROM_read e (addr + j)) [0..<len]"
    by simp
  then show ?thesis by (simp only: loadString_eq)
qed

lemma takeWhile_stored:
  "takeWhile (\<lambda>c. \<not> is_sentinel c) (xs @ replicate k (CHR 0x00)) =
   takeWhile (\<lambda>c. \<not> is_sentinel c) xs"
proof (cases "\<forall>c \<in> set xs. \<not> is_sentinel c")
  case True
  then have a: "takeWhile (\<lambda>c. \<not> is_sentinel c) xs = xs" by simp
  have b: "takeWhile (\<lambda>c. \<not> is_sentinel c) (replicate k (CHR 0x00)) = []"
    by (simp add: is_sentinel_def)
  have "takeWhile (\<lambda>c. \<not> is_sentinel c) (xs @ replicate k (CHR 0x00)) =
        xs @ takeWhile (\<lambda>c. \<not> is_sentinel c) (replicate k (CHR 0x00))"
    using True by (intro takeWhile_append2) blast
  then show ?thesis by (simp only: a b append_Nil2)
next
  case False
  then obtain x where "x \<in> set xs" "\<not> \<not> is_sentinel x" by blast
  then show ?thesis by (rule takeWhile_append1)
qed

lemma loadString_saveString:
  assumes "addr + len \<le> length (ram e)"
  shows "loadString (saveString str addr len e) addr len =
         takeWhile (\<lambda>c. \<not> is_sentinel c) (take len str)"
proof -
  have "map (\<lambda>j. EEPROM_read (saveString str addr len e) (addr + j)) [0..<len] =
        map (slot_byte str) [0..<len]"
    by (rule map_cong) (simp_all add: saveString_read [OF assms])
  then show ?thesis
    by (simp add: loadString_eq slot_bytes takeWhile_stored)
qed

lemma loadString_saveString_other:
  assumes "addr + len \<le> length (ram e)" and "a + l \<le> addr \<or> addr + len \<le> a"
  shows "loadString (saveString str addr len e) a l = loadString e a l"
  using assms(2) by (intro loadString_cong) (auto simp: saveString_read [OF assms(1)])

lemma EEPROM_begin_length: "length (ram (EEPROM_begin n fl)) = n"
  by (simp add: EEPROM_begin_def)

lemma EEPROM_begin_same: "length xs = n \<Longrightarrow> ram (EEPROM_begin n xs) = xs"
  by (simp add: EEPROM_begin_def)

lemma load_cong_ram: "ram e' = ram e \<Longrightarrow> load e' = load e"
proof -
  assume "ram e' = ram e"
  then have "EEPROM_read e' = EEPROM_read e"
    by (simp add: fun_eq_iff EEPROM_read_def)
  then show ?thesis by (simp add: load_def loadString_eq)
qed

lemma save_ram_length: "length (ram (save cfg e)) = length (ram e)"
  by (simp add: save_def saveString_ram_length)

lemma save_flash: "flash (save cfg e) = ram (save cfg e)"
  by (simp add: save_def saveString_flash)

lemma reload_save: "length (ram e) = EEPROM_SIZE \<Longrightarrow> reload (save cfg e) = load (save cfg e)"
  unfolding reload_def
  by (rule load_cong_ram) (simp add: save_flash EEPROM_begin_same save_ram_length)

lemma load_save:
  assumes "length (ram e) = EEPROM_SIZE"
  shows "load (save cfg e) =
     \<lparr>networkName = stored 32 (networkName cfg),
      networkSecret = stored 64 (networkSecret cfg),
      apiEndpoint = stored 128 (apiEndpoint cfg)\<rparr>"
proof -
  let ?e1 = "saveString (networkName cfg) EEPROM_SSID 32 e"
  let ?e2 = "saveString (networkSecret cfg) EEPROM_PASSWORD 64 ?e1"
  let ?e3 = "saveString (apiEndpoint cfg) EEPROM_API_URL 128 ?e2"
  have l0: "length (ram e) = 256" using assms by (simp add: EEPROM_SIZE_def)
  have "loadString ?e3 EEPROM_SSID 32 = loadString ?e2 EEPROM_SSID 32"
    by (rule loadString_saveString_other) (simp_all add: saveString_ram_length l0 EEPROM_SSID_def EEPROM_API_URL_def)
  also have "\<dots> = loadString ?e1 EEPROM_SSID 32"
    by (rule loadString_saveString_other) (simp_all add: saveString_ram_length l0 EEPROM_SSID_def EEPROM_PASSWORD_def)
  also have "\<dots> = stored 32 (networkName cfg)"
    unfolding stored_def by (rule loadString_saveString) (simp add: l0 EEPROM_SSID_def)
  finally have n: "loadString ?e3 EEPROM_SSID 32 = stored 32 (networkName cfg)" .
  have "loadString ?e3 EEPROM_PASSWORD 64 = loadString ?e2 EEPROM_PASSWORD 64"
    by (rule loadString_saveString_other) (simp_all add: saveString_ram_length l0 EEPROM_PASSWORD_def EEPROM_API_URL_def)
  also have "\<dots> = stored 64 (networkSecret cfg)"
    unfolding stored_def by (rule loadString_saveString) (simp add: saveString_ram_length l0 EEPROM_PASSWORD_def)
  finally have p: "loadString ?e3 EEPROM_PASSWORD 64 = stored 64 (networkSecret cfg)" .
  have a: "loadString ?e3 EEPROM_API_URL 128 = stored 128 (apiEndpoint cfg)"
    unfolding stored_def by (rule loadString_saveString) (simp add: saveString_ram_length l0 EEPROM_API_URL_def)
  show ?thesis by (simp add: load_def save_def n p a)
qed

lemma stored_sentinel_free: "sentinel_free str \<Longrightarrow> stored len str = take len str"
  by (auto simp: stored_def sentinel_free_def is_sentinel_def dest: in_set_takeD)

lemma handleResetSettings_save: "handleResetSettings e = save reset_defaults e"
  by (simp add: handleResetSettings_def save_def reset_defaults_def)

lemma loadString_erased:
  "0 < len \<Longrightarrow> is_sentinel (EEPROM_read e addr) \<Longrightarrow> loadString e addr len = []"
  by (simp add: loadString_eq upt_conv_Cons)

lemma EEPROM_begin_erased_read:
  "0 < n \<Longrightarrow> EEPROM_read (EEPROM_begin n (replicate k (CHR 0xFF))) 0 = CHR 0xFF"
  by (simp add: EEPROM_read_def EEPROM_begin_def nth_append)

lemma first_boot_sentinel_free:
  "sentinel_free (networkName first_boot_defaults)"
  "sentinel_free (networkSecret first_boot_defaults)"
  "sentinel_free (apiEndpoint first_boot_defaults)"
  by (simp_all add: first_boot_defaults_def sentinel_free_def)

lemma reset_sentinel_free:
  "sentinel_free (networkName reset_defaults)"
  "sentinel_free (networkSecret reset_defaults)"
  "sentinel_free (apiEndpoint reset_defaults)"
  by (simp_all add: reset_defaults_def sentinel_free_def)

lemma load_save_sentinel_free:
  assumes "length (ram e) = EEPROM_SIZE"
    and "sentinel_free (networkName cfg)" "sentinel_free (networkSecret cfg)"
    and "sentinel_free (apiEndpoint cfg)"
  shows "load (save cfg e) = truncated cfg"
  using assms(2-) by (simp add: load_save [OF assms(1)] stored_sentinel_free truncated_def)

lemma truncated_first_boot: "truncated first_boot_defaults = first_boot_defaults"
  by (simp add: truncated_def first_boot_defaults_def)

lemma truncated_reset: "truncated reset_defaults = reset_defaults"
  by (simp add: truncated_def reset_defaults_def)

lemma load_save_begin:
  "load (save cfg (EEPROM_begin EEPROM_SIZE fl)) =
     \<lparr>networkName = stored 32 (networkName cfg),
      networkSecret = stored 64 (networkSecret cfg),
      apiEndpoint = stored 128 (apiEndpoint cfg)\<rparr>"
  by (rule load_save) (rule EEPROM_begin_length)

lemma reload_reset:
  assumes "length (ram e) = EEPROM_SIZE"
  shows "load (handleResetSettings e) = reset_defaults"
    and "reload (handleResetSettings e) = reset_defaults"
  using load_save_sentinel_free [OF assms reset_sentinel_free] reload_save [OF assms, of reset_defaults]
  by (simp_all add: handleResetSettings_save truncated_reset)

lemma load_settings_erased:
  "load_settings (power_on (replicate k (CHR 0xFF)) rtc) =
     (power_on (replicate k (CHR 0xFF)) rtc)
       \<lparr>config := first_boot_defaults,
        eeprom := save first_boot_defaults (EEPROM_begin EEPROM_SIZE (replicate k (CHR 0xFF)))\<rparr>"
proof -
  have "networkName (load (EEPROM_begin EEPROM_SIZE (replicate k (CHR 0xFF)))) = []"
    by (simp add: load_def EEPROM_SSID_def EEPROM_SIZE_def loadString_erased
        EEPROM_begin_erased_read is_sentinel_def)
  then show ?thesis by (simp add: load_settings_def power_on_def Let_def)
qed

lemma reload_first_boot:
  "reload (save first_boot_defaults (EEPROM_begin EEPROM_SIZE fl)) = first_boot_defaults"
  using load_save_sentinel_free [OF EEPROM_begin_length first_boot_sentinel_free, of fl]
    reload_save [OF EEPROM_begin_length, of first_boot_defaults fl]
  by (simp add: truncated_first_boot)

lemma stored_up_to_sentinel:
  assumes "sentinel_free pre" and "is_sentinel c"
  shows "stored len (pre @ c # rest) = take len pre"
proof (cases "len \<le> length pre")
  case True
  then have "take len (pre @ c # rest) = take len pre" by simp
  moreover have "sentinel_free (take len pre)"
    using assms(1) by (auto simp: sentinel_free_def dest: in_set_takeD)
  ultimately show ?thesis
    using stored_sentinel_free [of "take len pre" len] by (simp add: stored_def)
next
  case False
  then obtain k where k: "len - length pre = Suc k" by (cases "len - length pre") auto
  from False have "take len (pre @ c # rest) = pre @ c # take k rest"
    by (simp add: k)
  moreover have "\<forall>x \<in> set pre. \<not> is_sentinel x"
    using assms(1) by (simp add: sentinel_free_def is_sentinel_def)
  ultimately have "stored len (pre @ c # rest) = pre"
    using assms(2) by (simp add: stored_def)
  with False show ?thesis by simp
qed

lemma read_back_sentinel_free:
  "sentinel_free (networkName cfg) \<Longrightarrow> sentinel_free (networkSecret cfg) \<Longrightarrow>
   sentinel_free (apiEndpoint cfg) \<Longrightarrow> read_back cfg = truncated cfg"
  by (simp add: read_back_def truncated_def stored_sentinel_free)

lemma load_settings_after_save:
  "config (load_settings (power_on (flash (save cfg (EEPROM_begin EEPROM_SIZE fl))) rtc)) =
     (if networkName (read_back cfg) = [] then first_boot_defaults else read_back cfg)"
proof -
  have "load (EEPROM_begin EEPROM_SIZE (flash (save cfg (EEPROM_begin EEPROM_SIZE fl)))) =
      read_back cfg"
    using reload_save [OF EEPROM_begin_length, of cfg fl]
    by (simp add: reload_def load_save_begin read_back_def)
  then show ?thesis
    by (simp add: load_settings_def power_on_def Let_def)
qed

section \<open>Settings store: the claims\<close>

text \<open>
  C6 (as amended). For every configuration and every flash content at boot, the three
  loads after a save, in the same run or at the start of the next boot, return each
  field cut to its slot width of 32, 64 and 128 bytes and then at its first \<open>0x00\<close> or
  \<open>0xFF\<close> byte: a field with no such byte comes back cut to its slot width only, and
  a field that holds one comes back only up to that byte. The next boot keeps the
  loaded configuration when the loaded network name is not empty, and replaces all
  three fields by the first-boot triple when it is.
\<close>

theorem save_load_roundtrip:
  "load (save cfg (EEPROM_begin EEPROM_SIZE fl)) = read_back cfg \<and>
   reload (save cfg (EEPROM_begin EEPROM_SIZE fl)) = read_back cfg \<and>
   config (load_settings (power_on (flash (save cfg (EEPROM_begin EEPROM_SIZE fl))) rtc)) =
     (if networkName (read_back cfg) = [] then first_boot_defaults else read_back cfg) \<and>
   (sentinel_free (networkName cfg) \<and> sentinel_free (networkSecret cfg) \<and>
    sentinel_free (apiEndpoint cfg) \<longrightarrow> read_back cfg = truncated cfg) \<and>
   (\<forall>len pre c rest. sentinel_free pre \<and> is_sentinel c \<longrightarrow>
      stored len (pre @ c # rest) = take len pre)"
  using reload_save [OF EEPROM_begin_length, of cfg fl]
  by (simp add: load_save_begin read_back_def [symmetric] load_settings_after_save
      read_back_sentinel_free stored_up_to_sentinel)

text \<open>
  The factory triple, saved over erased storage and read back in the same run, by
  the loads of the next boot and by that boot as a whole; and a secret cut at its
  \<open>0xFF\<close> byte.
\<close>

theorem save_load_roundtrip_witness:
  "load (save reset_defaults (EEPROM_begin EEPROM_SIZE [])) = reset_defaults \<and>
   reload (save reset_defaults (EEPROM_begin EEPROM_SIZE [])) = reset_defaults \<and>
   config (load_settings (power_on (flash (save reset_defaults (EEPROM_begin EEPROM_SIZE []))) None)) =
     reset_defaults \<and>
   stored 64 (''p'' @ CHR 0xFF # ''w'') = ''p''"
proof -
  have t: "read_back reset_defaults = reset_defaults"
    using save_load_roundtrip [of reset_defaults "[]" None]
    by (simp add: reset_sentinel_free truncated_reset)
  have n: "networkName reset_defaults \<noteq> []" by (simp add: reset_defaults_def)
  have s: "sentinel_free ''p''" "is_sentinel (CHR 0xFF)"
    by (simp_all add: sentinel_free_def is_sentinel_def)
  have u: "stored 64 (''p'' @ CHR 0xFF # ''w'') = take 64 ''p''"
    using save_load_roundtrip [of reset_defaults "[]" None] s by blast
  have "stored 64 (''p'' @ CHR 0xFF # ''w'') = ''p''"
    unfolding u by simp
  then show ?thesis
    using save_load_roundtrip [of reset_defaults "[]" None] n
    by (simp add: t)
qed

text \<open>
  C6 as stated fails: a secret of three bytes, the middle one \<open>0xFF\<close>, is within every
  length bound, and what is loaded after the save is its first byte only.
\<close>

theorem save_load_roundtrip_counterexample:
  "length (networkName secret_with_erased_byte) \<le> 32 \<and>
   length (networkSecret secret_with_erased_byte) \<le> 64 \<and>
   length (apiEndpoint secret_with_erased_byte) \<le> 128 \<and>
   load (save secret_with_erased_byte (EEPROM_begin EEPROM_SIZE [])) \<noteq>
     truncated secret_with_erased_byte \<and>
   networkSecret (load (save secret_with_erased_byte (EEPROM_begin EEPROM_SIZE []))) = ''p''"
  by (simp add: load_save_begin secret_with_erased_byte_def truncated_def
      stored_def is_sentinel_def)

text \<open>
  C3 (as amended). The factory reset writes its own hardcoded triple, and a load after
  it, in the same run or after the restart, gives exactly that triple, whatever the
  storage held; a boot on erased storage populates the configuration with the other
  hardcoded triple of the sketch, which the next boot reads back.
\<close>

theorem factory_reset_roundtrip:
  "load (handleResetSettings (EEPROM_begin EEPROM_SIZE fl)) = reset_defaults \<and>
   reload (handleResetSettings (EEPROM_begin EEPROM_SIZE fl)) = reset_defaults \<and>
   reset_defaults =
     \<lparr>networkName = ''myssid'', networkSecret = ''mypassword'',
      apiEndpoint = ''http://login.npu.ac.th/login?123456''\<rparr> \<and>
   config (load_settings (power_on (replicate k (CHR 0xFF)) rtc)) = first_boot_defaults \<and>
   reload (eeprom (load_settings (power_on (replicate k (CHR 0xFF)) rtc))) = first_boot_defaults"
  by (simp add: reload_reset EEPROM_begin_length load_settings_erased reload_first_boot
      reset_defaults_def)

text \<open>
  C3 as stated fails: on erased storage the configuration populated by the boot is not
  the one read back after a factory reset.
\<close>

theorem single_default_triple_counterexample:
  "config (load_settings (power_on [] None)) \<noteq>
   reload (handleResetSettings (eeprom (load_settings (power_on [] None))))"
proof -
  have s: "load_settings (power_on [] None) =
      (power_on [] None)
        \<lparr>config := first_boot_defaults,
         eeprom := save first_boot_defaults (EEPROM_begin EEPROM_SIZE [])\<rparr>"
    using load_settings_erased [of 0 None] by simp
  have "length (ram (save first_boot_defaults (EEPROM_begin EEPROM_SIZE []))) = EEPROM_SIZE"
    by (simp add: save_ram_length EEPROM_begin_length)
  then have "reload (handleResetSettings (save first_boot_defaults (EEPROM_begin EEPROM_SIZE [])))
      = reset_defaults"
    by (rule reload_reset)
  then show ?thesis
    by (simp add: s first_boot_defaults_def reset_defaults_def)
qed

section \<open>Health monitor: the loops\<close>

lemma blinkD4_eq:
  "blinkD4 s = s\<lparr>pins := (pins s)(pinD4 := False),
                 log := log s @ [PinWrite pinD4 True, Delay 100, PinWrite pinD4 False]\<rparr>"
  by (simp add: blinkD4_def digitalWrite_def delay_def emit_def)

lemma blinkPattern_1:
  "blinkPattern 1 on_ms off_ms s =
     s\<lparr>pins := (pins s)(pinD4 := False),
       log := log s @ [PinWrite pinD4 True, Delay on_ms, PinWrite pinD4 False]\<rparr>"
  by (simp add: blinkPattern_def blinkPattern_loop.simps digitalWrite_def delay_def emit_def)

lemma blinkPattern_2:
  "blinkPattern 2 on_ms off_ms s =
     s\<lparr>pins := (pins s)(pinD4 := False),
       log := log s @ [PinWrite pinD4 True, Delay on_ms, PinWrite pinD4 False, Delay off_ms,
                       PinWrite pinD4 True, Delay on_ms, PinWrite pinD4 False]\<rparr>"
  by (simp add: blinkPattern_def blinkPattern_loop.simps digitalWrite_def delay_def emit_def)

lemma blinkPattern_3:
  "blinkPattern 3 on_ms off_ms s =
     s\<lparr>pins := (pins s)(pinD4 := False),
       log := log s @ [PinWrite pinD4 True, Delay on_ms, PinWrite pinD4 False, Delay off_ms,
                       PinWrite pinD4 True, Delay on_ms, PinWrite pinD4 False, Delay off_ms,
                       PinWrite pinD4 True, Delay on_ms, PinWrite pinD4 False]\<rparr>"
  by (simp add: blinkPattern_def blinkPattern_loop.simps digitalWrite_def delay_def emit_def)

lemma short_blinks_2:
  "short_blinks 2 = [PinWrite pinD4 True, Delay 100, PinWrite pinD4 False, Delay 100,
                     PinWrite pinD4 True, Delay 100, PinWrite pinD4 False]"
  by (simp add: short_blinks_def upt_conv_Cons numeral_2_eq_2)

lemma short_blinks_3:
  "short_blinks 3 = [PinWrite pinD4 True, Delay 100, PinWrite pinD4 False, Delay 100,
                     PinWrite pinD4 True, Delay 100, PinWrite pinD4 False, Delay 100,
                     PinWrite pinD4 True, Delay 100, PinWrite pinD4 False]"
  by (simp add: short_blinks_def upt_conv_Cons numeral_3_eq_3)

lemma ping_loop_stale:
  "internetOK s \<Longrightarrow> ping_loop w pingAttempts apiAttempts apiOK s = (pingAttempts, apiAttempts, apiOK, s)"
  by (subst ping_loop.simps) simp

lemma performInternetCheck_stale:
  assumes "internetOK s"
  shows "performInternetCheck w s =
     (False,
      s\<lparr>rtcData := (rtcData s)\<lparr>internetUp := internetUp (rtcData s) + 1\<rparr>,
        rtc_mem := Some ((rtcData s)\<lparr>internetUp := internetUp (rtcData s) + 1\<rparr>),
        pins := (pins s)(pinD8 := True, pinD7 := False, pinD4 := False),
        log := log s @ [PinWrite pinD4 True, Delay 100, PinWrite pinD4 False,
                        PinWrite pinD8 True, PinWrite pinD7 False] @ long_blink\<rparr>)"
proof -
  have "internetOK (blinkD4 s)" using assms by (simp add: blinkD4_eq)
  then have "ping_loop w 0 0 False (blinkD4 s) = (0, 0, False, blinkD4 s)"
    by (rule ping_loop_stale)
  then show ?thesis
    using assms
    by (simp add: performInternetCheck_def blinkD4_eq blinkPattern_1 digitalWrite_def emit_def
        rtcUserMemoryWrite_def long_blink_def pinD4_def pinD7_def pinD8_def)
qed

lemma probeInternet_eq:
  "probeInternet w n s = (attempt_succeeds w n, s\<lparr>log := log s @ probe_events w n\<rparr>)"
  by (simp add: probeInternet_def pingHost_def attempt_succeeds_def probe_events_def emit_def)

lemma api_loop_stop:
  "\<not> (a < maxRetries \<and> \<not> ok) \<Longrightarrow> api_loop w a ok s = (a, ok, s)"
  by (subst api_loop.simps) auto

lemma api_loop_hit:
  "a < maxRetries \<Longrightarrow> \<not> ok \<Longrightarrow> http_success (http w (Suc a)) \<Longrightarrow>
   api_loop w a ok s = (Suc a, True, emit (HttpGet (apiEndpoint (config s))) s)"
  by (subst api_loop.simps) (simp add: httpGETRequest_def api_loop_stop)

lemma api_loop_miss:
  "a < maxRetries \<Longrightarrow> \<not> ok \<Longrightarrow> \<not> http_success (http w (Suc a)) \<Longrightarrow>
   api_loop w a ok s =
     api_loop w (Suc a) False
       (if Suc a < maxRetries then delay retryDelay (emit (HttpGet (apiEndpoint (config s))) s)
        else emit (HttpGet (apiEndpoint (config s))) s)"
  by (subst api_loop.simps) (simp add: httpGETRequest_def)

lemma api_loop_frame:
  "api_loop w a ok s = (a', ok', s') \<Longrightarrow> s' = s\<lparr>log := log s'\<rparr>"
proof (induction "maxRetries - a" arbitrary: a ok s)
  case 0
  then show ?case by (simp add: api_loop_stop)
next
  case (Suc k)
  show ?case
  proof (cases "ok")
    case True
    with Suc.prems show ?thesis by (simp add: api_loop_stop)
  next
    case False
    from Suc.hyps(2) have lt: "a < maxRetries" by simp
    show ?thesis
    proof (cases "http_success (http w (Suc a))")
      case True
      with Suc.prems lt \<open>\<not> ok\<close> show ?thesis by (auto simp: api_loop_hit emit_def)
    next
      case miss: False
      let ?s1 = "if Suc a < maxRetries then delay retryDelay (emit (HttpGet (apiEndpoint (config s))) s)
        else emit (HttpGet (apiEndpoint (config s))) s"
      have "api_loop w (Suc a) False ?s1 = (a', ok', s')"
        using Suc.prems lt \<open>\<not> ok\<close> miss by (simp add: api_loop_miss)
      moreover have "k = maxRetries - Suc a" using Suc.hyps(2) by simp
      ultimately have "s' = ?s1\<lparr>log := log s'\<rparr>" by (rule Suc.hyps(1) [rotated])
      then show ?thesis by (auto simp: emit_def delay_def split: if_splits)
    qed
  qed
qed

lemma api_loop_log:
  "api_loop w a ok s = (a', ok', s') \<Longrightarrow>
   \<exists>evs. log s' = log s @ evs \<and> (\<forall>ev \<in> set evs. api_event ev)"
proof (induction "maxRetries - a" arbitrary: a ok s)
  case 0
  then show ?case by (simp add: api_loop_stop)
next
  case (Suc k)
  show ?case
  proof (cases "ok")
    case True
    with Suc.prems show ?thesis by (simp add: api_loop_stop)
  next
    case False
    from Suc.hyps(2) have lt: "a < maxRetries" by simp
    show ?thesis
    proof (cases "http_success (http w (Suc a))")
      case True
      with Suc.prems lt \<open>\<not> ok\<close> show ?thesis
        by (auto simp: api_loop_hit emit_def api_event_def)
    next
      case miss: False
      let ?s1 = "if Suc a < maxRetries then delay retryDelay (emit (HttpGet (apiEndpoint (config s))) s)
        else emit (HttpGet (apiEndpoint (config s))) s"
      have "api_loop w (Suc a) False ?s1 = (a', ok', s')"
        using Suc.prems lt \<open>\<not> ok\<close> miss by (simp add: api_loop_miss)
      moreover have "k = maxRetries - Suc a" using Suc.hyps(2) by simp
      ultimately obtain evs where evs: "log s' = log ?s1 @ evs" "\<forall>ev \<in> set evs. api_event ev"
        using Suc.hyps(1) by blast
      have "\<exists>pre. log ?s1 = log s @ pre \<and> (\<forall>ev \<in> set pre. api_event ev)"
        by (cases "Suc a < maxRetries") (simp_all add: emit_def delay_def api_event_def)
      then obtain pre where pre: "log ?s1 = log s @ pre" "\<forall>ev \<in> set pre. api_event ev"
        by blast
      have "log s' = log s @ (pre @ evs)" using evs(1) pre(1) by simp
      moreover have "\<forall>ev \<in> set (pre @ evs). api_event ev" using evs(2) pre(2) by auto
      ultimately show ?thesis by blast
    qed
  qed
qed

lemma api_loop_ok:
  "api_loop w a ok s = (a', ok', s') \<Longrightarrow>
   ok' = (ok \<or> list_ex (\<lambda>n. http_success (http w n)) [Suc a..<Suc maxRetries])"
proof (induction "maxRetries - a" arbitrary: a ok s)
  case 0
  then show ?case by (simp add: api_loop_stop)
next
  case (Suc k)
  show ?case
  proof (cases "ok")
    case True
    with Suc.prems show ?thesis by (simp add: api_loop_stop)
  next
    case False
    from Suc.hyps(2) have lt: "a < maxRetries" by simp
    then have upt: "[Suc a..<Suc maxRetries] = Suc a # [Suc (Suc a)..<Suc maxRetries]"
      by (simp add: upt_conv_Cons)
    show ?thesis
    proof (cases "http_success (http w (Suc a))")
      case True
      with Suc.prems lt \<open>\<not> ok\<close> upt show ?thesis by (simp add: api_loop_hit)
    next
      case miss: False
      let ?s1 = "if Suc a < maxRetries then delay retryDelay (emit (HttpGet (apiEndpoint (config s))) s)
        else emit (HttpGet (apiEndpoint (config s))) s"
      have "api_loop w (Suc a) False ?s1 = (a', ok', s')"
        using Suc.prems lt \<open>\<not> ok\<close> miss by (simp add: api_loop_miss)
      moreover have "k = maxRetries - Suc a" using Suc.hyps(2) by simp
      ultimately have "ok' = (False \<or> list_ex (\<lambda>n. http_success (http w n)) [Suc (Suc a)..<Suc maxRetries])"
        by (rule Suc.hyps(1) [rotated])
      with miss \<open>\<not> ok\<close> upt show ?thesis by simp
    qed
  qed
qed

lemma ping_loop_stop:
  "\<not> (p < maxRetries \<and> \<not> internetOK s) \<Longrightarrow> ping_loop w p a ok s = (p, a, ok, s)"
  by (subst ping_loop.simps) auto

lemma ping_loop_hit:
  assumes "p < maxRetries" and "\<not> internetOK s" and "attempt_succeeds w (Suc p)"
  shows "ping_loop w p a ok s =
     (case api_loop w a ok (s\<lparr>log := log s @ probe_events w (Suc p), internetOK := True\<rparr>) of
        (a', ok', s') \<Rightarrow> (Suc p, a', ok', s'))"
proof -
  let ?s1 = "s\<lparr>log := log s @ probe_events w (Suc p), internetOK := True\<rparr>"
  obtain a' ok' s' where r: "api_loop w a ok ?s1 = (a', ok', s')"
    by (cases "api_loop w a ok ?s1") auto
  from api_loop_frame [OF r] have "internetOK s' = internetOK (?s1\<lparr>log := log s'\<rparr>)" by simp
  then have "internetOK s'" by simp
  then have "ping_loop w (Suc p) a' ok' s' = (Suc p, a', ok', s')" by (simp add: ping_loop_stop)
  with assms r show ?thesis
    by (subst ping_loop.simps) (simp add: probeInternet_eq)
qed

lemma ping_loop_miss:
  assumes "p < maxRetries" and "\<not> internetOK s" and "\<not> attempt_succeeds w (Suc p)"
  shows "ping_loop w p a ok s =
     ping_loop w (Suc p) a ok
       (if Suc p < maxRetries then delay retryDelay (s\<lparr>log := log s @ probe_events w (Suc p)\<rparr>)
        else s\<lparr>log := log s @ probe_events w (Suc p)\<rparr>)"
  using assms by (subst ping_loop.simps) (simp add: probeInternet_eq)

lemma ping_loop_cases [case_names stop hit miss]:
  assumes stop: "\<And>p a ok s. \<not> (p < maxRetries \<and> \<not> internetOK s) \<Longrightarrow> P p a ok s (p, a, ok, s)"
    and hit: "\<And>p a ok s a' ok' s'. p < maxRetries \<Longrightarrow> \<not> internetOK s \<Longrightarrow>
        attempt_succeeds w (Suc p) \<Longrightarrow>
        api_loop w a ok (s\<lparr>log := log s @ probe_events w (Suc p), internetOK := True\<rparr>) =
          (a', ok', s') \<Longrightarrow>
        P p a ok s (Suc p, a', ok', s')"
    and miss: "\<And>p a ok s r. p < maxRetries \<Longrightarrow> \<not> internetOK s \<Longrightarrow>
        \<not> attempt_succeeds w (Suc p) \<Longrightarrow>
        ping_loop w (Suc p) a ok (after_failed_attempt w (Suc p) s) = r \<Longrightarrow>
        P (Suc p) a ok (after_failed_attempt w (Suc p) s) r \<Longrightarrow> P p a ok s r"
  shows "P p a ok s (ping_loop w p a ok s)"
proof (induction "maxRetries - p" arbitrary: p s)
  case 0
  then show ?case by (simp add: ping_loop_stop stop)
next
  case (Suc k)
  from Suc.hyps(2) have lt: "p < maxRetries" by simp
  show ?case
  proof (cases "internetOK s")
    case True
    then show ?thesis by (simp add: ping_loop_stop stop)
  next
    case fresh: False
    show ?thesis
    proof (cases "attempt_succeeds w (Suc p)")
      case True
      obtain a' ok' s' where r:
        "api_loop w a ok (s\<lparr>log := log s @ probe_events w (Suc p), internetOK := True\<rparr>) =
          (a', ok', s')"
        using prod_cases3 by blast
      then show ?thesis
        using hit [OF lt fresh True r] by (simp add: ping_loop_hit [OF lt fresh True])
    next
      case False
      have k: "k = maxRetries - Suc p" using Suc.hyps(2) by simp
      have "P (Suc p) a ok (after_failed_attempt w (Suc p) s)
          (ping_loop w (Suc p) a ok (after_failed_attempt w (Suc p) s))"
        by (rule Suc.hyps(1) [OF k])
      then have "P p a ok s (ping_loop w (Suc p) a ok (after_failed_attempt w (Suc p) s))"
        by (rule miss [OF lt fresh False refl])
      then show ?thesis
        by (simp add: ping_loop_miss [OF lt fresh False] after_failed_attempt_def)
    qed
  qed
qed

lemma after_failed_attempt_frame:
  "after_failed_attempt w n s = s\<lparr>log := log (after_failed_attempt w n s)\<rparr>"
  by (simp add: after_failed_attempt_def delay_def emit_def)

lemma ping_loop_frame:
  assumes "ping_loop w p a ok s = (p', a', ok', s')"
  shows "s' = s\<lparr>internetOK := internetOK s', log := log s'\<rparr>"
proof -
  let ?P = "\<lambda>(p::nat) (a::nat) (ok::bool) s (r :: nat \<times> nat \<times> bool \<times> device).
      snd (snd (snd r)) = s\<lparr>internetOK := internetOK (snd (snd (snd r))), log := log (snd (snd (snd r)))\<rparr>"
  have "?P p a ok s (ping_loop w p a ok s)"
  proof (rule ping_loop_cases [where w = w and P = ?P], goal_cases)
    case (1 p a ok s)
    show ?case by simp
  next
    case (2 p a ok s a' ok' s')
    from api_loop_frame [OF 2(4)]
    have "s' = s\<lparr>log := log s @ probe_events w (Suc p), internetOK := True, log := log s'\<rparr>" .
    then have "s' = s\<lparr>internetOK := True, log := log s'\<rparr> \<and> internetOK s'"
      by (cases s, cases s') simp
    then show ?case by simp
  next
    case (3 p a ok s r)
    from 3(5) show ?case
      by (subst (asm) after_failed_attempt_frame) simp
  qed
  with assms show ?thesis by simp
qed

lemma api_event_probe_event: "api_event ev \<Longrightarrow> probe_event ev"
  by (cases ev) (simp_all add: api_event_def probe_event_def)

lemma probe_events_probe_event: "ev \<in> set (probe_events w n) \<Longrightarrow> probe_event ev"
  by (auto simp: probe_events_def probe_event_def split: if_splits)

lemma after_failed_attempt_log:
  "log (after_failed_attempt w n s) = log s @ failed_attempt_events w n"
  by (simp add: after_failed_attempt_def failed_attempt_events_def delay_def emit_def)

lemma after_failed_attempt_internetOK:
  "internetOK (after_failed_attempt w n s) = internetOK s"
  by (simp add: after_failed_attempt_def delay_def emit_def)

lemma failed_attempt_events_probe_event:
  "ev \<in> set (failed_attempt_events w n) \<Longrightarrow> probe_event ev"
  by (auto simp: failed_attempt_events_def probe_event_def dest: probe_events_probe_event
      split: if_splits)

lemma ping_loop_log:
  assumes "ping_loop w p a ok s = (p', a', ok', s')"
  shows "\<exists>evs. log s' = log s @ evs \<and> (\<forall>ev \<in> set evs. probe_event ev)"
proof -
  let ?P = "\<lambda>(p::nat) (a::nat) (ok::bool) s (r :: nat \<times> nat \<times> bool \<times> device).
      \<exists>evs. log (snd (snd (snd r))) = log s @ evs \<and> (\<forall>ev \<in> set evs. probe_event ev)"
  have "?P p a ok s (ping_loop w p a ok s)"
  proof (rule ping_loop_cases [where w = w and P = ?P], goal_cases)
    case (1 p a ok s)
    show ?case by simp
  next
    case (2 p a ok s a' ok' s')
    from api_loop_log [OF 2(4)] obtain evs where
      "log s' = (log s @ probe_events w (Suc p)) @ evs" "\<forall>ev \<in> set evs. api_event ev"
      by auto
    then have "log s' = log s @ (probe_events w (Suc p) @ evs)"
      "\<forall>ev \<in> set (probe_events w (Suc p) @ evs). probe_event ev"
      by (auto dest: api_event_probe_event probe_events_probe_event)
    then show ?case unfolding snd_conv by blast
  next
    case (3 p a ok s r)
    from 3(5) obtain evs where
      "log (snd (snd (snd r))) = (log s @ failed_attempt_events w (Suc p)) @ evs"
      "\<forall>ev \<in> set evs. probe_event ev"
      by (auto simp: after_failed_attempt_log)
    then have "log (snd (snd (snd r))) = log s @ (failed_attempt_events w (Suc p) @ evs)"
      "\<forall>ev \<in> set (failed_attempt_events w (Suc p) @ evs). probe_event ev"
      by (auto dest: failed_attempt_events_probe_event)
    then show ?case by blast
  qed
  with assms show ?thesis by simp
qed

lemma internet_reachable_after_Suc:
  "p < maxRetries \<Longrightarrow>
   internet_reachable_after w p = (attempt_succeeds w (Suc p) \<or> internet_reachable_after w (Suc p))"
proof -
  assume "p < maxRetries"
  then have "[Suc p..<Suc maxRetries] = Suc p # [Suc (Suc p)..<Suc maxRetries]"
    by (intro upt_conv_Cons) simp
  then show ?thesis by (simp only: internet_reachable_after_def list_ex_Cons_iff)
qed

lemma internet_reachable_after_end:
  "\<not> p < maxRetries \<Longrightarrow> \<not> internet_reachable_after w p"
  by (simp add: internet_reachable_after_def)

lemma ping_loop_flags:
  assumes "ping_loop w p a ok s = (p', a', ok', s')"
  shows "internetOK s' = (internetOK s \<or> internet_reachable_after w p)"
    and "ok' = (ok \<or> (\<not> internetOK s \<and> internet_reachable_after w p \<and> api_reachable_after w a))"
proof -
  let ?P = "\<lambda>(p::nat) (a::nat) (ok::bool) s (r :: nat \<times> nat \<times> bool \<times> device).
      internetOK (snd (snd (snd r))) = (internetOK s \<or> internet_reachable_after w p) \<and>
      fst (snd (snd r)) =
        (ok \<or> (\<not> internetOK s \<and> internet_reachable_after w p \<and> api_reachable_after w a))"
  have "?P p a ok s (ping_loop w p a ok s)"
  proof (rule ping_loop_cases [where w = w and P = ?P], goal_cases)
    case (1 p a ok s)
    then show ?case by (auto simp: internet_reachable_after_end)
  next
    case (2 p a ok s a' ok' s')
    from api_loop_frame [OF 2(4)] have "internetOK s'" by (cases s, cases s') simp
    moreover from api_loop_ok [OF 2(4)] have "ok' = (ok \<or> api_reachable_after w a)"
      by (simp add: api_reachable_after_def)
    ultimately show ?case using 2(1-3) by (simp add: internet_reachable_after_Suc)
  next
    case (3 p a ok s r)
    then show ?case
      by (simp add: internet_reachable_after_Suc after_failed_attempt_internetOK)
  qed
  with assms show "internetOK s' = (internetOK s \<or> internet_reachable_after w p)"
    and "ok' = (ok \<or> (\<not> internetOK s \<and> internet_reachable_after w p \<and> api_reachable_after w a))"
    by simp_all
qed

lemma reachable_after_0:
  "internet_reachable_after w 0 = internet_reachable w"
  "api_reachable_after w 0 = api_reachable w"
  by (simp_all add: internet_reachable_after_def internet_reachable_def
      api_reachable_after_def api_reachable_def)

lemma ping_loop_stale_log:
  assumes "ping_loop w p a ok s = (p', a', ok', s')" and "internetOK s"
  shows "log s' = log s"
  using assms by (simp add: ping_loop_stop)

lemma performInternetCheck_eq:
  "\<exists>evs. (\<forall>ev \<in> set evs. probe_event ev) \<and> (internetOK s \<longrightarrow> evs = []) \<and>
     performInternetCheck w s =
       (cycle_api w s,
        s\<lparr>internetOK := cycle_internet w s,
          rtcData := counted (cycle_internet w s) (cycle_api w s) (rtcData s),
          rtc_mem := Some (counted (cycle_internet w s) (cycle_api w s) (rtcData s)),
          pins := (pins s)(pinD8 := cycle_internet w s, pinD7 := \<not> cycle_internet w s,
                           pinD4 := False),
          log := log s @ [PinWrite pinD4 True, Delay 100, PinWrite pinD4 False] @ evs @
                 [PinWrite pinD8 (cycle_internet w s), PinWrite pinD7 (\<not> cycle_internet w s)] @
                 feedback (cycle_internet w s) (cycle_api w s)\<rparr>)"
proof -
  let ?b = "blinkD4 s"
  obtain p' a' ok' s1 where r: "ping_loop w 0 0 False ?b = (p', a', ok', s1)"
    using prod_cases4 by blast
  have b: "internetOK ?b = internetOK s" by (simp add: blinkD4_eq)
  from ping_loop_flags [OF r] have i: "internetOK s1 = cycle_internet w s"
    and a: "ok' = cycle_api w s"
    by (simp_all add: b reachable_after_0 cycle_internet_def cycle_api_def)
  from ping_loop_log [OF r] obtain evs where evs: "log s1 = log ?b @ evs"
    "\<forall>ev \<in> set evs. probe_event ev" by blast
  have stale: "internetOK s \<longrightarrow> evs = []"
    using ping_loop_stale_log [OF r] evs(1) b by simp
  from ping_loop_frame [OF r] have s1: "s1 = ?b\<lparr>internetOK := cycle_internet w s, log := log ?b @ evs\<rparr>"
    using i evs(1) by simp
  have imp: "cycle_api w s \<longrightarrow> cycle_internet w s"
    by (simp add: cycle_api_def cycle_internet_def)
  have "performInternetCheck w s =
       (cycle_api w s,
        s\<lparr>internetOK := cycle_internet w s,
          rtcData := counted (cycle_internet w s) (cycle_api w s) (rtcData s),
          rtc_mem := Some (counted (cycle_internet w s) (cycle_api w s) (rtcData s)),
          pins := (pins s)(pinD8 := cycle_internet w s, pinD7 := \<not> cycle_internet w s,
                           pinD4 := False),
          log := log s @ [PinWrite pinD4 True, Delay 100, PinWrite pinD4 False] @ evs @
                 [PinWrite pinD8 (cycle_internet w s), PinWrite pinD7 (\<not> cycle_internet w s)] @
                 feedback (cycle_internet w s) (cycle_api w s)\<rparr>)"
    using imp unfolding performInternetCheck_def Let_def r prod.case a s1
    by (cases "cycle_internet w s"; cases "cycle_api w s")
      (simp_all add: blinkD4_eq blinkPattern_1 blinkPattern_2
        blinkPattern_3 digitalWrite_def emit_def rtcUserMemoryWrite_def long_blink_def
        short_blinks_2 short_blinks_3 feedback_def counted_def pinD4_def pinD7_def pinD8_def)
  with evs(2) stale show ?thesis by blast
qed

section \<open>Health monitor: one check\<close>

lemma normalSetup_eq:
  "normalSetup s =
     s\<lparr>rtcData := (stored_count (rtc_mem s))\<lparr>bootCount := bootCount (stored_count (rtc_mem s)) + 1\<rparr>,
       rtc_mem := Some ((stored_count (rtc_mem s))\<lparr>bootCount := bootCount (stored_count (rtc_mem s)) + 1\<rparr>),
       pins := (pins s)(pinD4 := False, pinD7 := False, pinD8 := False),
       log := log s @ [PinWrite pinD4 False, PinWrite pinD7 False, PinWrite pinD8 False]\<rparr>"
  by (cases "rtc_mem s")
    (simp_all add: normalSetup_def rtcUserMemoryRead_def rtcUserMemoryWrite_def digitalWrite_def
      emit_def stored_count_def)

lemma cycle_result:
  "fst (performInternetCheck w s) = cycle_api w s"
  "internetOK (snd (performInternetCheck w s)) = cycle_internet w s"
  "rtcData (snd (performInternetCheck w s)) = counted (cycle_internet w s) (cycle_api w s) (rtcData s)"
  "rtc_mem (snd (performInternetCheck w s)) = Some (rtcData (snd (performInternetCheck w s)))"
  "pins (snd (performInternetCheck w s)) =
     (pins s)(pinD8 := cycle_internet w s, pinD7 := \<not> cycle_internet w s, pinD4 := False)"
  "config (snd (performInternetCheck w s)) = config s"
  "eeprom (snd (performInternetCheck w s)) = eeprom s"
  "rssiFailCount (snd (performInternetCheck w s)) = rssiFailCount s"
  using performInternetCheck_eq [of s w] by auto

lemma cycle_events_eq:
  "\<exists>evs. (\<forall>ev \<in> set evs. probe_event ev) \<and> (internetOK s \<longrightarrow> evs = []) \<and>
     cycle_events w s =
       [PinWrite pinD4 True, Delay 100, PinWrite pinD4 False] @ evs @
       [PinWrite pinD8 (cycle_internet w s), PinWrite pinD7 (\<not> cycle_internet w s)] @
       feedback (cycle_internet w s) (cycle_api w s)"
proof -
  from performInternetCheck_eq [of s w] obtain evs where
    "\<forall>ev \<in> set evs. probe_event ev" "internetOK s \<longrightarrow> evs = []"
    "log (snd (performInternetCheck w s)) =
       log s @ [PinWrite pinD4 True, Delay 100, PinWrite pinD4 False] @ evs @
       [PinWrite pinD8 (cycle_internet w s), PinWrite pinD7 (\<not> cycle_internet w s)] @
       feedback (cycle_internet w s) (cycle_api w s)"
    by auto
  then show ?thesis unfolding cycle_events_def by auto
qed

lemma cycle_events_stale:
  assumes "internetOK s"
  shows "cycle_events w s =
     [PinWrite pinD4 True, Delay 100, PinWrite pinD4 False, PinWrite pinD8 True,
      PinWrite pinD7 False] @ long_blink"
  using cycle_events_eq [of s w] assms
  by (auto simp: cycle_internet_def cycle_api_def feedback_def)

lemma blink_feedback_cycle:
  "blink_feedback (cycle_events w s) = feedback (cycle_internet w s) (cycle_api w s)"
proof -
  let ?P = "\<lambda>ev. case ev of PinWrite pin level \<Rightarrow> pin \<noteq> pinD7 | _ \<Rightarrow> True"
  from cycle_events_eq [of s w] obtain evs where evs: "\<forall>ev \<in> set evs. probe_event ev"
    and ce: "cycle_events w s =
       ([PinWrite pinD4 True, Delay 100, PinWrite pinD4 False] @ evs @
        [PinWrite pinD8 (cycle_internet w s)]) @
       PinWrite pinD7 (\<not> cycle_internet w s) # feedback (cycle_internet w s) (cycle_api w s)"
    by auto
  have "\<And>ev. ev \<in> set ([PinWrite pinD4 True, Delay 100, PinWrite pinD4 False] @ evs @
        [PinWrite pinD8 (cycle_internet w s)]) \<Longrightarrow> ?P ev"
    using evs by (fastforce simp: probe_event_def pinD4_def pinD7_def pinD8_def split: event.splits)
  then have "dropWhile ?P (cycle_events w s) =
      dropWhile ?P (PinWrite pinD7 (\<not> cycle_internet w s) #
        feedback (cycle_internet w s) (cycle_api w s))"
    unfolding ce by (rule dropWhile_append2)
  then show ?thesis by (simp add: blink_feedback_def)
qed

lemma online_reachable: "internet_reachable online" "api_reachable online"
  by (simp_all add: internet_reachable_def api_reachable_def attempt_succeeds_def online_def
      http_success_def maxRetries_def upt_conv_Cons)

lemma offline_unreachable: "\<not> internet_reachable offline" "\<not> api_reachable offline"
  by (simp_all add: internet_reachable_def api_reachable_def attempt_succeeds_def offline_def
      http_success_def maxRetries_def upt_conv_Cons)

lemma load_settings_frame:
  "rtc_mem (load_settings s) = rtc_mem s" "rtcData (load_settings s) = rtcData s"
  "internetOK (load_settings s) = internetOK s" "log (load_settings s) = log s"
  by (simp_all add: load_settings_def Let_def)

lemma booted_eq:
  "booted = snd (performInternetCheck online
      (normalSetup (snd (connectToSavedWiFi good_boot (load_settings (power_on [] None))))))"
  by (simp add: booted_def setup_sketch_def good_boot_def connectToSavedWiFi_def Let_def)

lemma booted_internetOK: "internetOK booted"
  by (simp add: booted_eq cycle_result cycle_internet_def online_reachable)

lemma booted_rtcData: "rtcData booted = \<lparr>bootCount = 1, internetUp = 1, apiSuccess = 1\<rparr>"
  by (simp add: booted_eq cycle_result cycle_internet_def cycle_api_def online_reachable
      normalSetup_eq connectToSavedWiFi_def emit_def load_settings_frame power_on_def
      counted_def stored_count_def)

lemma fresh_cycle:
  assumes "\<not> internetOK s"
  shows "internetOK (snd (performInternetCheck w s)) = internet_reachable w"
    and "fst (performInternetCheck w s) = (internet_reachable w \<and> api_reachable w)"
    and "rtcData (snd (performInternetCheck w s)) =
         counted (internet_reachable w) (api_reachable w) (rtcData s)"
    and "rtc_mem (snd (performInternetCheck w s)) = Some (rtcData (snd (performInternetCheck w s)))"
    and "pins (snd (performInternetCheck w s)) pinD8 = internet_reachable w"
    and "pins (snd (performInternetCheck w s)) pinD7 = (\<not> internet_reachable w)"
    and "blink_feedback (cycle_events w s) = feedback (internet_reachable w) (api_reachable w)"
  using assms
  by (auto simp: cycle_result blink_feedback_cycle cycle_internet_def cycle_api_def counted_def
      feedback_def pinD4_def pinD7_def pinD8_def)

lemma leds_follow_flag:
  "pins (snd (performInternetCheck w s)) pinD8 = internetOK (snd (performInternetCheck w s))"
  "pins (snd (performInternetCheck w s)) pinD7 = (\<not> internetOK (snd (performInternetCheck w s)))"
  "PinWrite pinD8 (internetOK (snd (performInternetCheck w s))) \<in> set (cycle_events w s)"
  "PinWrite pinD7 (\<not> internetOK (snd (performInternetCheck w s))) \<in> set (cycle_events w s)"
  using cycle_events_eq [of s w]
  by (auto simp: cycle_result pinD4_def pinD7_def pinD8_def)

lemma internet_attempts_append:
  "internet_attempts (xs @ ys) = internet_attempts xs + internet_attempts ys"
  by (simp add: internet_attempts_def)

lemma internet_attempts_probe_events: "internet_attempts (probe_events w n) = 1"
  by (simp add: internet_attempts_def probe_events_def)

lemma internet_attempts_failed: "internet_attempts (failed_attempt_events w n) = 1"
  by (simp add: failed_attempt_events_def internet_attempts_append internet_attempts_probe_events)
    (simp add: internet_attempts_def)

lemma internet_attempts_failed_run:
  "internet_attempts (concat (map (failed_attempt_events w) ns)) = length ns"
  by (induction ns) (simp_all add: internet_attempts_append internet_attempts_failed,
      simp add: internet_attempts_def)

lemma internet_attempts_api:
  "\<forall>ev \<in> set evs. api_event ev \<Longrightarrow> internet_attempts evs = 0"
  by (induction evs) (auto simp: internet_attempts_def api_event_def)

lemma attempt_log_Suc:
  "Suc p < p' \<Longrightarrow> attempt_log w p p' = failed_attempt_events w (Suc p) @ attempt_log w (Suc p) p'"
  by (simp add: attempt_log_def upt_conv_Cons)

lemma attempt_log_last: "attempt_log w p (Suc p) =
     (if attempt_succeeds w (Suc p) then probe_events w (Suc p) else failed_attempt_events w (Suc p))"
  by (simp add: attempt_log_def)

lemma ping_loop_fresh:
  assumes "ping_loop w p a ok s = (p', a', ok', s')" and "\<not> internetOK s" and "p < maxRetries"
  shows "p < p' \<and> p' \<le> maxRetries \<and> (\<forall>n. p < n \<and> n < p' \<longrightarrow> \<not> attempt_succeeds w n) \<and>
         (attempt_succeeds w p' \<or> p' = maxRetries) \<and>
         (\<exists>api_evs. (\<forall>ev \<in> set api_evs. api_event ev) \<and>
            (\<not> attempt_succeeds w p' \<longrightarrow> api_evs = []) \<and>
            log s' = log s @ attempt_log w p p' @ api_evs)"
proof -
  let ?Q = "\<lambda>(p::nat) s (r :: nat \<times> nat \<times> bool \<times> device).
      p < fst r \<and> fst r \<le> maxRetries \<and>
      (\<forall>n. p < n \<and> n < fst r \<longrightarrow> \<not> attempt_succeeds w n) \<and>
      (attempt_succeeds w (fst r) \<or> fst r = maxRetries) \<and>
      (\<exists>api_evs. (\<forall>ev \<in> set api_evs. api_event ev) \<and>
         (\<not> attempt_succeeds w (fst r) \<longrightarrow> api_evs = []) \<and>
         log (snd (snd (snd r))) = log s @ attempt_log w p (fst r) @ api_evs)"
  let ?P = "\<lambda>(p::nat) (a::nat) (ok::bool) s (r :: nat \<times> nat \<times> bool \<times> device).
      \<not> internetOK s \<and> p < maxRetries \<longrightarrow> ?Q p s r"
  have "?P p a ok s (ping_loop w p a ok s)"
  proof (rule ping_loop_cases [where w = w and P = ?P], goal_cases)
    case (1 p a ok s)
    then show ?case by auto
  next
    case (2 p a ok s a' ok' s')
    from api_loop_log [OF 2(4)] obtain evs where
      "log s' = log s @ probe_events w (Suc p) @ evs" "\<forall>ev \<in> set evs. api_event ev"
      by auto
    with 2(1-3) show ?case by (auto simp: attempt_log_last)
  next
    case (3 p a ok s r)
    show ?case
    proof (intro impI)
      show "?Q p s r"
      proof (cases "Suc p < maxRetries")
        case True
        with 3(5) have q: "?Q (Suc p) (after_failed_attempt w (Suc p) s) r"
          by (simp add: after_failed_attempt_internetOK 3(2))
        then have lt: "Suc p < fst r" by simp
        from q obtain api_evs where api: "\<forall>ev \<in> set api_evs. api_event ev"
          "\<not> attempt_succeeds w (fst r) \<longrightarrow> api_evs = []"
          "log (snd (snd (snd r))) =
             log (after_failed_attempt w (Suc p) s) @ attempt_log w (Suc p) (fst r) @ api_evs"
          by blast
        have "log (snd (snd (snd r))) = log s @ attempt_log w p (fst r) @ api_evs"
          using api(3) by (simp add: after_failed_attempt_log attempt_log_Suc [OF lt])
        moreover have "\<forall>n. p < n \<and> n < fst r \<longrightarrow> \<not> attempt_succeeds w n"
        proof (intro allI impI)
          fix n assume n: "p < n \<and> n < fst r"
          show "\<not> attempt_succeeds w n"
          proof (cases "n = Suc p")
            case True
            with 3(3) show ?thesis by simp
          next
            case False
            with n have "Suc p < n \<and> n < fst r" by simp
            with q show ?thesis by blast
          qed
        qed
        ultimately show ?thesis using q api(1,2) by auto
      next
        case False
        then have "ping_loop w (Suc p) a ok (after_failed_attempt w (Suc p) s) =
            (Suc p, a, ok, after_failed_attempt w (Suc p) s)"
          by (simp add: ping_loop_stop)
        with 3(4) have r: "r = (Suc p, a, ok, after_failed_attempt w (Suc p) s)" by simp
        have "log (after_failed_attempt w (Suc p) s) = log s @ attempt_log w p (Suc p) @ []"
          using 3(3) by (simp add: after_failed_attempt_log attempt_log_last)
        then show ?thesis
          unfolding r using 3(1) False by auto
      qed
    qed
  qed
  with assms show ?thesis by simp
qed

text \<open>
  A cycle entered with the flag clear: the number of attempts and the events of the
  internet sub-loop.
\<close>

lemma fresh_cycle_attempts:
  assumes "\<not> internetOK s"
  shows "\<exists>n api_evs. 1 \<le> n \<and> n \<le> maxRetries \<and>
     (\<forall>k. 1 \<le> k \<and> k < n \<longrightarrow> \<not> attempt_succeeds w k) \<and>
     (attempt_succeeds w n \<or> n = maxRetries) \<and>
     internet_attempts (cycle_events w s) = n \<and>
     (\<forall>ev \<in> set api_evs. api_event ev) \<and>
     (\<not> attempt_succeeds w n \<longrightarrow> api_evs = []) \<and>
     cycle_events w s =
       [PinWrite pinD4 True, Delay 100, PinWrite pinD4 False] @ attempt_log w 0 n @ api_evs @
       [PinWrite pinD8 (internet_reachable w), PinWrite pinD7 (\<not> internet_reachable w)] @
       feedback (internet_reachable w) (api_reachable w)"
proof -
  let ?b = "blinkD4 s"
  obtain p' a' ok' s1 where r: "ping_loop w 0 0 False ?b = (p', a', ok', s1)"
    using prod_cases4 by blast
  have b: "\<not> internetOK ?b" using assms by (simp add: blinkD4_eq)
  from ping_loop_fresh [OF r b] obtain api_evs where
    n: "0 < p'" "p' \<le> maxRetries" "\<forall>n. 0 < n \<and> n < p' \<longrightarrow> \<not> attempt_succeeds w n"
      "attempt_succeeds w p' \<or> p' = maxRetries"
    and api: "\<forall>ev \<in> set api_evs. api_event ev"
    and quiet: "\<not> attempt_succeeds w p' \<longrightarrow> api_evs = []"
    and lg: "log s1 = log ?b @ attempt_log w 0 p' @ api_evs"
    by (auto simp: maxRetries_def)
  from ping_loop_flags [OF r] have i: "internetOK s1 = internet_reachable w"
    and a: "ok' = (internet_reachable w \<and> api_reachable w)"
    using b by (simp_all add: reachable_after_0)
  from ping_loop_frame [OF r]
  have s1: "s1 = ?b\<lparr>internetOK := internet_reachable w, log := log ?b @ attempt_log w 0 p' @ api_evs\<rparr>"
    using i lg by simp
  have ce: "cycle_events w s =
       [PinWrite pinD4 True, Delay 100, PinWrite pinD4 False] @ attempt_log w 0 p' @ api_evs @
       [PinWrite pinD8 (internet_reachable w), PinWrite pinD7 (\<not> internet_reachable w)] @
       feedback (internet_reachable w) (api_reachable w)"
    unfolding cycle_events_def performInternetCheck_def Let_def r prod.case a s1
    by (cases "internet_reachable w"; cases "api_reachable w")
      (simp_all add: blinkD4_eq blinkPattern_1 blinkPattern_2
        blinkPattern_3 digitalWrite_def emit_def rtcUserMemoryWrite_def long_blink_def
        short_blinks_2 short_blinks_3 feedback_def pinD4_def pinD7_def pinD8_def)
  have cnt: "internet_attempts (attempt_log w 0 p') = p'"
    using n(1)
    by (simp add: attempt_log_def internet_attempts_append internet_attempts_failed_run
        internet_attempts_failed internet_attempts_probe_events)
  have fb: "internet_attempts (feedback x y) = 0" for x y
    by (simp add: feedback_def internet_attempts_def short_blinks_2 short_blinks_3 long_blink_def)
  have st: "internet_attempts [PinWrite pinD4 True, Delay 100, PinWrite pinD4 False] = 0"
    and ld: "internet_attempts [PinWrite pinD8 x, PinWrite pinD7 y] = 0" for x y
    by (simp_all add: internet_attempts_def)
  have "internet_attempts (cycle_events w s) = p'"
    unfolding ce internet_attempts_append
    by (simp only: cnt internet_attempts_api [OF api] fb st ld)
  with n api quiet ce show ?thesis by (intro exI [of _ p'] exI [of _ api_evs]) auto
qed

lemma fresh_cycle_all_fail:
  assumes "\<not> internetOK s" and "\<not> internet_reachable w"
  shows "cycle_events w s =
     [PinWrite pinD4 True, Delay 100, PinWrite pinD4 False] @
     probe_events w 1 @ [Delay retryDelay] @ probe_events w 2 @ [Delay retryDelay] @
     probe_events w 3 @ [PinWrite pinD8 False, PinWrite pinD7 True] @ short_blinks 3"
proof -
  from assms(2) have f: "\<not> attempt_succeeds w 1" "\<not> attempt_succeeds w 2" "\<not> attempt_succeeds w 3"
    by (simp_all add: internet_reachable_def maxRetries_def upt_conv_Cons numeral_2_eq_2
        numeral_3_eq_3)
  from fresh_cycle_attempts [OF assms(1), of w] obtain n api_evs where
    n: "1 \<le> n" "n \<le> maxRetries" "attempt_succeeds w n \<or> n = maxRetries"
    and api: "\<not> attempt_succeeds w n \<longrightarrow> api_evs = []"
    and ce: "cycle_events w s =
       [PinWrite pinD4 True, Delay 100, PinWrite pinD4 False] @ attempt_log w 0 n @ api_evs @
       [PinWrite pinD8 (internet_reachable w), PinWrite pinD7 (\<not> internet_reachable w)] @
       feedback (internet_reachable w) (api_reachable w)"
    by blast
  have n3: "n = 3"
  proof (rule ccontr)
    assume "n \<noteq> 3"
    with n have "n = 1 \<or> n = 2" "attempt_succeeds w n" by (auto simp: maxRetries_def)
    with f show False by auto
  qed
  have al: "attempt_log w 0 3 =
      probe_events w 1 @ [Delay retryDelay] @ probe_events w 2 @ [Delay retryDelay] @
      probe_events w 3"
    using f
    by (simp add: attempt_log_def failed_attempt_events_def maxRetries_def upt_conv_Cons
        numeral_3_eq_3 numeral_2_eq_2)
  from api f n3 have "api_evs = []" by simp
  then show ?thesis
    using assms(2) by (simp add: ce n3 al feedback_def)
qed

section \<open>Health monitor: the claims\<close>

text \<open>
  C2. In every health check, from every state and against every network, the API flag
  the check ends with is set only if \<^verbatim>\<open>internetOK\<close> is set at its end, and then an
  internet attempt of this same check succeeded.
\<close>

theorem api_flag_needs_internet_flag:
  "fst (performInternetCheck w s) \<longrightarrow>
     internetOK (snd (performInternetCheck w s)) \<and> internet_reachable w"
  by (simp add: cycle_result cycle_api_def cycle_internet_def)

text \<open>A check that ends with the API flag set: the first one after power-on, all answering.\<close>

theorem api_flag_needs_internet_flag_witness:
  "fst (performInternetCheck online (power_on [] None)) \<and>
   internetOK (snd (performInternetCheck online (power_on [] None))) \<and>
   internet_reachable online"
proof -
  have "fst (performInternetCheck online (power_on [] None))"
    by (simp add: cycle_result(1) cycle_api_def online_reachable power_on_def)
  with api_flag_needs_internet_flag [of online "power_on [] None"] show ?thesis by simp
qed

text \<open>
  C1 does not hold of the sketch. After a boot on a working network \<^verbatim>\<open>internetOK\<close> is
  set, nothing clears it, and the next health check, whatever the network does, makes
  no internet attempt at all, where the claim promises at least one. (For a check
  entered with the flag clear, \<open>fresh_cycle_attempts\<close> and \<open>fresh_cycle_all_fail\<close> above
  give what the claim says: one to three attempts, none after the first success, and
  the 5000 ms wait after each failed attempt but the third.)
\<close>

theorem stale_cycle_makes_no_attempt:
  "internetOK booted \<and>
   cycle_events w booted =
     [PinWrite pinD4 True, Delay 100, PinWrite pinD4 False, PinWrite pinD8 True,
      PinWrite pinD7 False, PinWrite pinD4 True, Delay 500, PinWrite pinD4 False] \<and>
   internet_attempts (cycle_events w booted) = 0"
  by (simp add: booted_internetOK cycle_events_stale internet_attempts_def long_blink_def)

text \<open>
  C5 does not hold of the sketch, by the same stale flag. In the check after such a
  boot, with the network down, \<^verbatim>\<open>internetUp\<close> goes from 1 to 2 although no attempt could
  succeed; with everything answering, \<^verbatim>\<open>apiSuccess\<close> stays at 1 although internet and API
  are both reachable. (\<open>fresh_cycle\<close> gives the claimed counts, and the write to RTC
  memory, for a check entered with the flag clear.)
\<close>

theorem stale_cycle_counts_without_probing:
  "\<not> internet_reachable offline \<and>
   internetUp (rtcData booted) = 1 \<and>
   internetUp (rtcData (snd (performInternetCheck offline booted))) = 2 \<and>
   internet_reachable online \<and> api_reachable online \<and>
   apiSuccess (rtcData booted) = 1 \<and>
   apiSuccess (rtcData (snd (performInternetCheck online booted))) = 1"
  by (simp add: cycle_result cycle_internet_def cycle_api_def booted_internetOK booted_rtcData
      online_reachable offline_unreachable counted_def)

text \<open>
  C8 does not hold of the sketch, by the same stale flag. In the check after such a
  boot, with the network down, the internet-up output is driven high and the
  internet-down output low. (Both outputs are written in every check and always
  opposite, following \<^verbatim>\<open>internetOK\<close>: \<open>leds_follow_flag\<close>.)
\<close>

theorem stale_cycle_shows_internet_up:
  "\<not> internet_reachable offline \<and>
   pins (snd (performInternetCheck offline booted)) pinD8 \<and>
   \<not> pins (snd (performInternetCheck offline booted)) pinD7"
  by (simp add: cycle_result cycle_internet_def booted_internetOK offline_unreachable
      pinD4_def pinD7_def pinD8_def)

text \<open>
  C9 does not hold of the sketch, by the same stale flag. In the check after such a
  boot the feedback is the one long blink, both when the network is down (the claim
  says three short blinks) and when internet and API both answer (the claim says two).
\<close>

theorem stale_cycle_blinks_api_failure:
  "\<not> internet_reachable offline \<and>
   blink_feedback (cycle_events offline booted) = long_blink \<and>
   long_blink \<noteq> short_blinks 3 \<and>
   internet_reachable online \<and> api_reachable online \<and>
   blink_feedback (cycle_events online booted) = long_blink \<and>
   long_blink \<noteq> short_blinks 2"
  by (simp add: blink_feedback_cycle cycle_internet_def cycle_api_def booted_internetOK
      online_reachable offline_unreachable feedback_def long_blink_def short_blinks_2
      short_blinks_3)

section \<open>Link supervisor and web handlers\<close>

lemma checkWiFiHealth_weak_below:
  "rssi < - 90 \<Longrightarrow> rssiFailCount s + 1 < 6 \<Longrightarrow>
   checkWiFiHealth True rssi s = Running (s\<lparr>rssiFailCount := rssiFailCount s + 1\<rparr>)"
  by (simp add: checkWiFiHealth_def)

lemma checkWiFiHealth_weak_sixth:
  "rssi < - 90 \<Longrightarrow> rssiFailCount s = 5 \<Longrightarrow>
   checkWiFiHealth True rssi s =
     Running (s\<lparr>rssiFailCount := 0, log := log s @ reconnect_events s\<rparr>)"
  by (simp add: checkWiFiHealth_def emit_def delay_def reconnect_events_def)

lemma checkWiFiHealth_strong:
  "- 90 \<le> rssi \<Longrightarrow> checkWiFiHealth True rssi s = Running (s\<lparr>rssiFailCount := 0\<rparr>)"
  by (simp add: checkWiFiHealth_def)

lemma checkWiFiHealth_link_down: "checkWiFiHealth False rssi s = Restarted s"
  by (simp add: checkWiFiHealth_def)

lemma supervise_append:
  "supervise (ts @ us) s =
     (case supervise ts s of Restarted s' \<Rightarrow> Restarted s' | Running s' \<Rightarrow> supervise us s')"
  by (induction ts arbitrary: s) (auto split: outcome.splits)

lemma supervise_weak_run:
  "\<forall>t \<in> set ts. weak_tick t \<Longrightarrow> rssiFailCount s + int (length ts) < 6 \<Longrightarrow>
   supervise ts s = Running (s\<lparr>rssiFailCount := rssiFailCount s + int (length ts)\<rparr>)"
proof (induction ts arbitrary: s)
  case Nil
  then show ?case by simp
next
  case (Cons t ts)
  obtain c r where t: "t = (c, r)" by (cases t)
  from Cons.prems(1) t have w: "c" "r < - 90" by (simp_all add: weak_tick_def)
  from Cons.prems(2) have lt: "rssiFailCount s + 1 < 6" by simp
  let ?s1 = "s\<lparr>rssiFailCount := rssiFailCount s + 1\<rparr>"
  have step: "checkWiFiHealth c r s = Running ?s1"
    using w lt by (simp add: checkWiFiHealth_weak_below)
  have "supervise ts ?s1 = Running (?s1\<lparr>rssiFailCount := rssiFailCount ?s1 + int (length ts)\<rparr>)"
    using Cons.prems by (intro Cons.IH) simp_all
  then show ?case using step t by (simp add: add.assoc)
qed

lemma supervise_six_weak:
  assumes "\<forall>t \<in> set ts. weak_tick t" and "length ts = 6" and "rssiFailCount s = 0"
  shows "supervise ts s = Running (s\<lparr>rssiFailCount := 0, log := log s @ reconnect_events s\<rparr>)"
proof -
  from assms(2) obtain us t where ts: "ts = us @ [t]" and len: "length us = 5"
    by (cases ts rule: rev_cases) auto
  obtain c r where t: "t = (c, r)" by (cases t)
  from assms(1) ts t have w: "c" "r < - 90" by (simp_all add: weak_tick_def)
  have "supervise us s = Running (s\<lparr>rssiFailCount := rssiFailCount s + int (length us)\<rparr>)"
    using assms(1,3) ts len by (intro supervise_weak_run) simp_all
  then have five: "supervise us s = Running (s\<lparr>rssiFailCount := 5\<rparr>)"
    using assms(3) len by simp
  have "checkWiFiHealth c r (s\<lparr>rssiFailCount := 5\<rparr>) =
      Running (s\<lparr>rssiFailCount := 5\<rparr>\<lparr>rssiFailCount := 0,
        log := log (s\<lparr>rssiFailCount := 5\<rparr>) @ reconnect_events (s\<lparr>rssiFailCount := 5\<rparr>)\<rparr>)"
    using w by (simp add: checkWiFiHealth_weak_sixth)
  then show ?thesis
    using five ts t by (simp add: supervise_append reconnect_events_def)
qed

lemma reconnects_append:
  "reconnects (s\<lparr>log := log s @ evs\<rparr>) =
   reconnects s + length (filter (\<lambda>ev. ev = WifiDisconnect) evs)"
  by (simp add: reconnects_def)

text \<open>
  Any number of weak ticks in a row, from any streak below 6: one reconnect for every
  sixth tick of the streak.
\<close>

lemma supervise_weak_any:
  assumes "\<forall>t \<in> set ts. weak_tick t" and "0 \<le> rssiFailCount s" and "rssiFailCount s < 6"
  shows "\<exists>s'. supervise ts s = Running s' \<and>
     rssiFailCount s' = (rssiFailCount s + int (length ts)) mod 6 \<and>
     reconnects s' = reconnects s + nat ((rssiFailCount s + int (length ts)) div 6)"
  using assms
proof (induction ts arbitrary: s)
  case Nil
  then show ?case by simp
next
  case (Cons t ts)
  obtain c r where t: "t = (c, r)" by (cases t)
  from Cons.prems(1) t have w: "c" "r < - 90" by (simp_all add: weak_tick_def)
  from Cons.prems(1) have rest: "\<forall>t \<in> set ts. weak_tick t" by simp
  show ?case
  proof (cases "rssiFailCount s = 5")
    case True
    let ?s1 = "s\<lparr>rssiFailCount := 0, log := log s @ reconnect_events s\<rparr>"
    have step: "checkWiFiHealth c r s = Running ?s1"
      using w True by (simp add: checkWiFiHealth_weak_sixth)
    from Cons.IH [OF rest, of ?s1] obtain s' where s':
      "supervise ts ?s1 = Running s'"
      "rssiFailCount s' = int (length ts) mod 6"
      "reconnects s' = reconnects ?s1 + nat (int (length ts) div 6)"
      by auto
    have r1: "reconnects ?s1 = reconnects s + 1"
      by (simp add: reconnects_def reconnect_events_def)
    have "(5 + int (length (t # ts))) mod 6 = int (length ts) mod 6"
      "nat ((5 + int (length (t # ts))) div 6) = 1 + nat (int (length ts) div 6)"
      by (simp_all add: nat_add_distrib)
    with s' r1 step t True show ?thesis by simp
  next
    case False
    with Cons.prems have lt: "rssiFailCount s + 1 < 6" by simp
    let ?s1 = "s\<lparr>rssiFailCount := rssiFailCount s + 1\<rparr>"
    have step: "checkWiFiHealth c r s = Running ?s1"
      using w lt by (simp add: checkWiFiHealth_weak_below)
    from Cons.IH [OF rest, of ?s1] Cons.prems(2) lt obtain s' where s':
      "supervise ts ?s1 = Running s'"
      "rssiFailCount s' = (rssiFailCount s + 1 + int (length ts)) mod 6"
      "reconnects s' = reconnects ?s1 + nat ((rssiFailCount s + 1 + int (length ts)) div 6)"
      by auto
    have "reconnects ?s1 = reconnects s" by (simp add: reconnects_def)
    with s' step t show ?thesis by (simp add: add.commute add.left_commute)
  qed
qed

text \<open>
  C7. From a streak counter of 0 (its value at power-on, after every tick with a signal
  of -90 dBm or more, and after every reconnect), six consecutive ticks with the link up
  and the signal below -90 dBm perform exactly one disconnect/reconnect, on the sixth
  tick and not before, and leave the counter at 0; five or fewer such ticks perform
  none and leave the counter at their number; and a tick with the link up and a signal
  of -90 dBm or more sets the counter to 0 from any state and does nothing else.
\<close>

theorem signal_streak:
  assumes "\<forall>t \<in> set ts. weak_tick t" and "rssiFailCount s = 0"
  shows "(length ts = 6 \<longrightarrow>
            supervise ts s = Running (s\<lparr>rssiFailCount := 0, log := log s @ reconnect_events s\<rparr>) \<and>
            reconnects (the_running (supervise ts s)) = reconnects s + 1 \<and>
            reconnects (the_running (supervise (butlast ts) s)) = reconnects s)
       \<and> (length ts \<le> 5 \<longrightarrow>
            supervise ts s = Running (s\<lparr>rssiFailCount := int (length ts)\<rparr>) \<and>
            reconnects (the_running (supervise ts s)) = reconnects s)
       \<and> (\<forall>rssi s'. - 90 \<le> rssi \<longrightarrow>
            checkWiFiHealth True rssi s' = Running (s'\<lparr>rssiFailCount := 0\<rparr>))"
proof (intro conjI impI allI)
  assume six: "length ts = 6"
  show r: "supervise ts s = Running (s\<lparr>rssiFailCount := 0, log := log s @ reconnect_events s\<rparr>)"
    using assms six by (intro supervise_six_weak) simp_all
  have "reconnects (s\<lparr>rssiFailCount := 0, log := log s @ reconnect_events s\<rparr>) = reconnects s + 1"
    by (simp add: reconnects_def reconnect_events_def)
  then show "reconnects (the_running (supervise ts s)) = reconnects s + 1"
    by (simp add: r)
  have "supervise (butlast ts) s =
      Running (s\<lparr>rssiFailCount := rssiFailCount s + int (length (butlast ts))\<rparr>)"
    using assms six by (intro supervise_weak_run) (auto dest: in_set_butlastD)
  then show "reconnects (the_running (supervise (butlast ts) s)) = reconnects s"
    by (simp add: reconnects_def)
next
  assume le: "length ts \<le> 5"
  have "supervise ts s = Running (s\<lparr>rssiFailCount := rssiFailCount s + int (length ts)\<rparr>)"
    using assms le by (intro supervise_weak_run) simp_all
  then show r: "supervise ts s = Running (s\<lparr>rssiFailCount := int (length ts)\<rparr>)"
    using assms(2) by simp
  show "reconnects (the_running (supervise ts s)) = reconnects s"
    by (simp add: r reconnects_def)
next
  fix rssi :: int and s'
  assume "- 90 \<le> rssi"
  then show "checkWiFiHealth True rssi s' = Running (s'\<lparr>rssiFailCount := 0\<rparr>)"
    by (rule checkWiFiHealth_strong)
qed

text \<open>Six and five weak ticks after power-on.\<close>

theorem signal_streak_witness:
  "supervise (replicate 6 (True, - 95)) (power_on [] None) =
     Running ((power_on [] None)\<lparr>rssiFailCount := 0,
        log := [WifiDisconnect, Delay 500, WifiBegin [] []]\<rparr>) \<and>
   supervise (replicate 5 (True, - 95)) (power_on [] None) =
     Running ((power_on [] None)\<lparr>rssiFailCount := 5\<rparr>)"
  using signal_streak [of "replicate 6 (True, - 95)" "power_on [] None"]
    signal_streak [of "replicate 5 (True, - 95)" "power_on [] None"]
  by (simp add: weak_tick_def power_on_def reconnect_events_def)

text \<open>
  C10. A \<^verbatim>\<open>POST /save\<close> whose fields do not include \<^verbatim>\<open>ssid\<close> is answered with status 400
  by the handler of either mode; the handler returns without a restart and the device
  state is the one before, but for the answer in the log: configuration strings, EEPROM
  and flash, counters and RTC memory are untouched.
\<close>

theorem save_without_name_rejected:
  assumes "args ''ssid'' = None"
  shows "configMode_save args s = Running (s\<lparr>log := log s @ [HttpSend 400 ''text/plain'']\<rparr>) \<and>
         normalSetup_save args s = Running (s\<lparr>log := log s @ [HttpSend 400 ''text/plain'']\<rparr>)"
  using assms by (simp add: configMode_save_def normalSetup_save_def hasArg_def emit_def)

text \<open>A form with a secret and a URL but no name.\<close>

theorem save_without_name_rejected_witness:
  "configMode_save [''password'' \<mapsto> ''secret'', ''api_url'' \<mapsto> ''http://a''] (power_on [] None) =
     Running ((power_on [] None)\<lparr>log := [HttpSend 400 ''text/plain'']\<rparr>) \<and>
   normalSetup_save [''password'' \<mapsto> ''secret'', ''api_url'' \<mapsto> ''http://a''] (power_on [] None) =
     Running ((power_on [] None)\<lparr>log := [HttpSend 400 ''text/plain'']\<rparr>)"
  using save_without_name_rejected
    [of "[''password'' \<mapsto> ''secret'', ''api_url'' \<mapsto> ''http://a'']" "power_on [] None"]
  by (simp add: power_on_def)

section \<open>Boot\<close>

lemma blinkPattern_loop_frame:
  "rtc_mem (blinkPattern_loop count on_ms off_ms i s) = rtc_mem s \<and>
   rtcData (blinkPattern_loop count on_ms off_ms i s) = rtcData s"
proof (induction count on_ms off_ms i s rule: blinkPattern_loop.induct)
  case (1 count on_ms off_ms i s)
  show ?case
  proof (cases "i < count")
    case True
    let ?b = "digitalWrite pinD4 False (delay on_ms (digitalWrite pinD4 True s))"
    let ?s' = "if i < count - 1 then delay off_ms ?b else ?b"
    have step: "blinkPattern_loop count on_ms off_ms i s =
        blinkPattern_loop count on_ms off_ms (i + 1) ?s'"
      using True by (subst blinkPattern_loop.simps) (simp add: Let_def)
    have ih: "rtc_mem (blinkPattern_loop count on_ms off_ms (i + 1) ?s') = rtc_mem ?s' \<and>
        rtcData (blinkPattern_loop count on_ms off_ms (i + 1) ?s') = rtcData ?s'"
      by (rule 1 [OF True refl refl refl refl])
    have "rtc_mem ?s' = rtc_mem s \<and> rtcData ?s' = rtcData s"
      by (simp add: digitalWrite_def delay_def emit_def)
    with ih show ?thesis by (simp only: step)
  next
    case False
    then show ?thesis by (subst (1 2) blinkPattern_loop.simps) simp
  qed
qed

lemma blinkPattern_frame:
  "rtc_mem (blinkPattern count on_ms off_ms s) = rtc_mem s"
  "rtcData (blinkPattern count on_ms off_ms s) = rtcData s"
  by (simp_all add: blinkPattern_def blinkPattern_loop_frame)

lemma configMode_frame:
  "rtc_mem (the_running (configMode env s)) = rtc_mem s"
  "rtcData (the_running (configMode env s)) = rtcData s"
  by (simp_all add: configMode_def Let_def delay_def emit_def blinkPattern_frame)

lemma setup_sketch_station:
  assumes "station_boot env"
  shows "setup_sketch env s =
     Station (snd (performInternetCheck (first_check env)
       (normalSetup (snd (connectToSavedWiFi env
          (if button_low_first env then delay 500 (load_settings s) else load_settings s))))))"
  using assms by (auto simp: setup_sketch_def station_boot_def connectToSavedWiFi_def Let_def)

lemma setup_sketch_other:
  assumes "\<not> station_boot env"
  shows "\<not> ends_in_station (setup_sketch env s)"
    and "rtc_mem (boot_state (setup_sketch env s)) = rtc_mem s"
    and "rtcData (boot_state (setup_sketch env s)) = rtcData s"
proof -
  let ?s1 = "if button_low_first env then delay 500 (load_settings s) else load_settings s"
  have f: "rtc_mem ?s1 = rtc_mem s" "rtcData ?s1 = rtcData s"
    by (simp_all add: load_settings_frame delay_def emit_def)
  show "\<not> ends_in_station (setup_sketch env s)"
    using assms
    by (auto simp: setup_sketch_def station_boot_def connectToSavedWiFi_def Let_def
        split: outcome.splits)
  show "rtc_mem (boot_state (setup_sketch env s)) = rtc_mem s"
  proof (cases "button_low_first env \<and> button_low_second env")
    case True
    then show ?thesis using f by (simp add: setup_sketch_def Let_def)
  next
    case False
    with assms have nc: "\<not> wifi_connects env" by (simp add: station_boot_def)
    let ?s2 = "emit (WifiBegin (networkName (config ?s1)) (networkSecret (config ?s1))) ?s1"
    have "boot_state (setup_sketch env s) = the_running (configMode env ?s2)"
      using False nc
      by (simp add: setup_sketch_def connectToSavedWiFi_def Let_def split: outcome.splits)
    then show ?thesis using f by (simp add: configMode_frame emit_def)
  qed
  show "rtcData (boot_state (setup_sketch env s)) = rtcData s"
  proof (cases "button_low_first env \<and> button_low_second env")
    case True
    then show ?thesis using f by (simp add: setup_sketch_def Let_def)
  next
    case False
    with assms have nc: "\<not> wifi_connects env" by (simp add: station_boot_def)
    let ?s2 = "emit (WifiBegin (networkName (config ?s1)) (networkSecret (config ?s1))) ?s1"
    have "boot_state (setup_sketch env s) = the_running (configMode env ?s2)"
      using False nc
      by (simp add: setup_sketch_def connectToSavedWiFi_def Let_def split: outcome.splits)
    then show ?thesis using f by (simp add: configMode_frame emit_def)
  qed
qed

lemma setup_sketch_station_count:
  assumes "station_boot env"
  shows "ends_in_station (setup_sketch env s)"
    and "bootCount (rtcData (boot_state (setup_sketch env s))) =
         bootCount (stored_count (rtc_mem s)) + 1"
    and "rtc_mem (boot_state (setup_sketch env s)) =
         Some (rtcData (boot_state (setup_sketch env s)))"
proof -
  let ?s1 = "if button_low_first env then delay 500 (load_settings s) else load_settings s"
  have f: "rtc_mem ?s1 = rtc_mem s"
    by (simp add: load_settings_frame delay_def emit_def)
  show "ends_in_station (setup_sketch env s)"
    by (simp add: setup_sketch_station [OF assms])
  show "bootCount (rtcData (boot_state (setup_sketch env s))) =
         bootCount (stored_count (rtc_mem s)) + 1"
    using f
    by (simp add: setup_sketch_station [OF assms] cycle_result counted_def normalSetup_eq
        connectToSavedWiFi_def emit_def)
  show "rtc_mem (boot_state (setup_sketch env s)) =
         Some (rtcData (boot_state (setup_sketch env s)))"
    by (simp add: setup_sketch_station [OF assms] cycle_result)
qed

text \<open>
  C4 (as amended). \<^verbatim>\<open>normalSetup\<close> starts from the RTC block, or from three zeros when
  the block cannot be read, adds one to \<^verbatim>\<open>bootCount\<close> (modulo \<open>2^32\<close>) and writes the block
  back. A boot that joins the network without the reset input held ends in station
  mode with the boot counted exactly once; every other boot (portal, or restart) leaves
  the RTC block as it was and the counters in RAM at zero.
\<close>

theorem boot_counting:
  "rtcData (normalSetup s) =
     (stored_count (rtc_mem s))\<lparr>bootCount := bootCount (stored_count (rtc_mem s)) + 1\<rparr> \<and>
   rtc_mem (normalSetup s) = Some (rtcData (normalSetup s)) \<and>
   stored_count None = \<lparr>bootCount = 0, internetUp = 0, apiSuccess = 0\<rparr> \<and>
   (station_boot env \<longrightarrow>
      ends_in_station (setup_sketch env (power_on fl rtc)) \<and>
      bootCount (rtcData (boot_state (setup_sketch env (power_on fl rtc)))) =
        bootCount (stored_count rtc) + 1 \<and>
      rtc_mem (boot_state (setup_sketch env (power_on fl rtc))) =
        Some (rtcData (boot_state (setup_sketch env (power_on fl rtc))))) \<and>
   (\<not> station_boot env \<longrightarrow>
      \<not> ends_in_station (setup_sketch env (power_on fl rtc)) \<and>
      rtc_mem (boot_state (setup_sketch env (power_on fl rtc))) = rtc \<and>
      rtcData (boot_state (setup_sketch env (power_on fl rtc))) =
        \<lparr>bootCount = 0, internetUp = 0, apiSuccess = 0\<rparr>)"
proof -
  have p: "rtc_mem (power_on fl rtc) = rtc"
    "rtcData (power_on fl rtc) = \<lparr>bootCount = 0, internetUp = 0, apiSuccess = 0\<rparr>"
    by (simp_all add: power_on_def)
  show ?thesis
    using setup_sketch_station_count [of env "power_on fl rtc"]
      setup_sketch_other [of env "power_on fl rtc"]
    by (simp add: p normalSetup_eq stored_count_def)
qed

text \<open>A counted boot from a block of seven boots, and an uncounted one into the portal.\<close>

theorem boot_counting_witness:
  "ends_in_station (setup_sketch good_boot (power_on [] (Some seven_boots))) \<and>
   bootCount (rtcData (boot_state (setup_sketch good_boot (power_on [] (Some seven_boots))))) = 8 \<and>
   rtcData (normalSetup (power_on [] None)) = \<lparr>bootCount = 1, internetUp = 0, apiSuccess = 0\<rparr> \<and>
   \<not> ends_in_station (setup_sketch quiet_boot (power_on [] None)) \<and>
   rtc_mem (boot_state (setup_sketch quiet_boot (power_on [] None))) = None"
  using boot_counting [of "power_on [] None" good_boot "[]" "Some seven_boots"]
    boot_counting [of "power_on [] None" quiet_boot "[]" None]
  by (simp add: station_boot_def good_boot_def quiet_boot_def stored_count_def seven_boots_def
      power_on_def)

text \<open>
  C4 as stated fails: a boot that finds no network ends in the portal, and the stored
  \<^verbatim>\<open>bootCount\<close> is 7 after it as it was before.
\<close>

theorem boot_not_counted_counterexample:
  "ends_in_portal (setup_sketch quiet_boot (power_on [] (Some seven_boots))) \<and>
   rtc_mem (boot_state (setup_sketch quiet_boot (power_on [] (Some seven_boots)))) =
     Some seven_boots \<and>
   bootCount seven_boots = 7 \<and>
   bootCount (rtcData (boot_state (setup_sketch quiet_boot (power_on [] (Some seven_boots))))) = 0"
proof -
  have n: "\<not> station_boot quiet_boot" by (simp add: station_boot_def quiet_boot_def)
  have "ends_in_portal (setup_sketch quiet_boot (power_on [] (Some seven_boots)))"
    by (simp add: setup_sketch_def quiet_boot_def connectToSavedWiFi_def configMode_def Let_def)
  then show ?thesis
    using setup_sketch_other [OF n, of "power_on [] (Some seven_boots)"]
    by (simp add: power_on_def seven_boots_def)
qed

end
